theory Spec2Isabelle
  imports Complex_Main "HOL-Library.AList"
begin

section \<open>The worker of opensensecam: shared fix state, EXIF building, capture loop\<close>

text \<open>
  The theory embeds \<^verbatim>\<open>usr/share/opensensecam/worker.py\<close>. Exceptions are values of
  \<open>pyerror\<close>; a function that can raise returns \<open>pyerror + 'a\<close> with \<open>Inl\<close> the exception.
\<close>

datatype pyerror =
  AttributeError | TypeError | ValueError | ZeroDivisionError | NameError | RuntimeError

subsection \<open>SharedState\<close>

text \<open>
  \<^verbatim>\<open>SharedState._latest_fix\<close> is \<^verbatim>\<open>None\<close> or the result of \<^verbatim>\<open>dict(fix_dict)\<close>. The
  candidate \<^verbatim>\<open>fix_dict\<close> is read through its attribute \<^verbatim>\<open>fix_quality\<close> and copied with
  \<^verbatim>\<open>dict()\<close>. The Python objects involved are therefore \<^verbatim>\<open>None\<close>, a plain \<^verbatim>\<open>dict\<close>
  (which has no attribute \<^verbatim>\<open>fix_quality\<close>), and a mapping object that carries the
  attribute \<^verbatim>\<open>fix_quality\<close> besides its items.
\<close>

type_synonym pyitems = "(string \<times> string) list"

datatype pyobj = PyNone | PyDict pyitems | PyFix int pyitems

text \<open>\<^verbatim>\<open>obj.fix_quality\<close>\<close>

fun getattr_fix_quality :: "pyobj \<Rightarrow> pyerror + int" where
  "getattr_fix_quality (PyFix q its) = Inr q"
| "getattr_fix_quality (PyDict its) = Inl AttributeError"
| "getattr_fix_quality PyNone = Inl AttributeError"

text \<open>\<^verbatim>\<open>dict(obj)\<close>: always a plain dict; \<^verbatim>\<open>dict(None)\<close> raises TypeError.\<close>

fun py_dict :: "pyobj \<Rightarrow> pyerror + pyobj" where
  "py_dict (PyFix q its) = Inr (PyDict its)"
| "py_dict (PyDict its) = Inr (PyDict its)"
| "py_dict PyNone = Inl TypeError"

text \<open>The truth value of an object: \<^verbatim>\<open>None\<close> and an empty mapping are false.\<close>

fun truthy :: "pyobj \<Rightarrow> bool" where
  "truthy PyNone = False"
| "truthy (PyDict its) = (its \<noteq> [])"
| "truthy (PyFix q its) = (its \<noteq> [])"

record SharedState =
  latest_fix :: pyobj

text \<open>\<^verbatim>\<open>SharedState.__init__\<close>\<close>

definition SharedState_init :: SharedState where
  "SharedState_init = \<lparr>latest_fix = PyNone\<rparr>"

text \<open>
  \<^verbatim>\<open>SharedState.set_fix\<close>. The comparison reads the held fix's attribute first, then the
  candidate's. When the held quality is \<open>\<le>\<close> the candidate's the method only prints
  ("... is not better than the current ... Skipping") and leaves the state as it is;
  otherwise it stores \<^verbatim>\<open>dict(fix_dict)\<close>. The lock is released on every path, so an
  exception leaves the state unchanged.
\<close>

definition set_fix :: "SharedState \<Rightarrow> pyobj \<Rightarrow> pyerror + SharedState" where
  "set_fix s fix_dict =
     (case getattr_fix_quality (latest_fix s) of
        Inl e \<Rightarrow> Inl e
      | Inr held_q \<Rightarrow>
          (case getattr_fix_quality fix_dict of
             Inl e \<Rightarrow> Inl e
           | Inr cand_q \<Rightarrow>
               if held_q \<le> cand_q then Inr s
               else (case py_dict fix_dict of
                       Inl e \<Rightarrow> Inl e
                     | Inr d \<Rightarrow> Inr (s\<lparr>latest_fix := d\<rparr>))))"

text \<open>\<^verbatim>\<open>SharedState.get_fix\<close>: \<^verbatim>\<open>dict(self._latest_fix) if self._latest_fix else None\<close>\<close>

definition get_fix :: "SharedState \<Rightarrow> pyerror + pyobj" where
  "get_fix s = (if truthy (latest_fix s) then py_dict (latest_fix s) else Inr PyNone)"



subsection \<open>fractions.Fraction and \<^verbatim>\<open>_rat\<close>\<close>

text \<open>
  A Python \<^verbatim>\<open>Fraction\<close> is a pair of integers in lowest terms with a positive
  denominator: the type \<open>rat\<close>, read through \<open>quotient_of\<close>. \<^verbatim>\<open>Fraction(x)\<close> of an
  \<^verbatim>\<open>int\<close> or of a finite \<^verbatim>\<open>float\<close> is the exact value of \<open>x\<close>, so the argument of
  \<^verbatim>\<open>_rat\<close> is taken as a rational number.
\<close>

definition numerator :: "rat \<Rightarrow> int" where
  "numerator f = fst (quotient_of f)"

definition denominator :: "rat \<Rightarrow> int" where
  "denominator f = snd (quotient_of f)"

text \<open>\<^verbatim>\<open>Fraction(p, q)\<close> for integers: ZeroDivisionError when \<open>q = 0\<close>.\<close>

definition Fraction :: "int \<Rightarrow> int \<Rightarrow> pyerror + rat" where
  "Fraction p q = (if q = 0 then Inl ZeroDivisionError else Inr (Rat.Fract p q))"

text \<open>
  The \<^verbatim>\<open>while True\<close> loop of \<^verbatim>\<open>Fraction.limit_denominator\<close> (CPython's
  \<^verbatim>\<open>fractions.py\<close>):
  \<^verbatim>\<open>
    a = n//d
    q2 = q0+a*q1
    if q2 > max_denominator: break
    p0, q0, p1, q1 = p1, q1, p0+a*p1, q2
    n, d = d, n-a*d
  \<close>
  The floor division raises ZeroDivisionError for \<open>d = 0\<close>.
\<close>

function limit_denominator_loop ::
  "int \<Rightarrow> int \<Rightarrow> int \<Rightarrow> int \<Rightarrow> int \<Rightarrow> int \<Rightarrow> int
     \<Rightarrow> pyerror + (int \<times> int \<times> int \<times> int)" where
  "limit_denominator_loop max_denominator p0 q0 p1 q1 n d =
     (if d = 0 then Inl ZeroDivisionError
      else let a = n div d; q2 = q0 + a * q1 in
        if q2 > max_denominator then Inr (p0, q0, p1, q1)
        else limit_denominator_loop max_denominator p1 q1 (p0 + a * p1) q2 d (n - a * d))"
  by pat_completeness auto
termination
proof (relation "measure (\<lambda>(M, p0, q0, p1, q1, n, d). nat \<bar>d\<bar>)")
  show "wf (measure (\<lambda>(M, p0, q0, p1, q1, n, d). nat \<bar>d\<bar>))" by simp
next
  fix max_denominator p0 q0 p1 q1 n d :: int and a q2
  assume d: "d \<noteq> 0" and a: "a = n div d"
  have "n - a * d = n mod d" unfolding a by (simp add: minus_div_mult_eq_mod)
  moreover have "\<bar>n mod d\<bar> < \<bar>d\<bar>" using d by (simp add: abs_mod_less)
  ultimately show "((max_denominator, p1, q1, p0 + a * p1, q2, d, n - a * d),
                    (max_denominator, p0, q0, p1, q1, n, d))
                   \<in> measure (\<lambda>(M, p0, q0, p1, q1, n, d). nat \<bar>d\<bar>)"
    by simp
qed

text \<open>
  \<^verbatim>\<open>Fraction.limit_denominator\<close>: ValueError for a bound below 1; the fraction itself
  when its denominator is within the bound; otherwise the loop, then
  \<^verbatim>\<open>k = (max_denominator-q0)//q1\<close>, the two candidates \<^verbatim>\<open>bound1\<close> and \<^verbatim>\<open>bound2\<close>, and
  the one closer to \<open>self\<close> (\<^verbatim>\<open>bound2\<close> on a tie).
\<close>

definition limit_denominator :: "rat \<Rightarrow> int \<Rightarrow> pyerror + rat" where
  "limit_denominator self max_denominator =
     (if max_denominator < 1 then Inl ValueError
      else if denominator self \<le> max_denominator then Inr self
      else
        (case limit_denominator_loop max_denominator 0 1 1 0 (numerator self) (denominator self) of
           Inl e \<Rightarrow> Inl e
         | Inr (p0, q0, p1, q1) \<Rightarrow>
             if q1 = 0 then Inl ZeroDivisionError
             else
               let k = (max_denominator - q0) div q1 in
               (case Fraction (p0 + k * p1) (q0 + k * q1) of
                  Inl e \<Rightarrow> Inl e
                | Inr bound1 \<Rightarrow>
                    (case Fraction p1 q1 of
                       Inl e \<Rightarrow> Inl e
                     | Inr bound2 \<Rightarrow>
                         if \<bar>bound2 - self\<bar> \<le> \<bar>bound1 - self\<bar> then Inr bound2
                         else Inr bound1))))"

text \<open>
  \<^verbatim>\<open>_rat(x, max_den=1_000_000)\<close> (an identifier cannot start with an underscore here,
  hence \<open>u_rat\<close>); callers that rely on the default pass \<open>1000000\<close>.
\<close>

definition u_rat :: "rat \<Rightarrow> int \<Rightarrow> pyerror + (int \<times> int)" where
  "u_rat x max_den =
     (case limit_denominator x max_den of
        Inl e \<Rightarrow> Inl e
      | Inr f \<Rightarrow> Inr (numerator f, denominator f))"

subsection \<open>Double-precision arithmetic and \<^verbatim>\<open>_deg_to_dms\<close>\<close>

text \<open>
  A finite Python \<^verbatim>\<open>float\<close> is an IEEE 754 binary64 number, taken here as the rational
  it denotes. Every arithmetic operation returns the exact result rounded to the nearest
  double, ties to the even significand: 53 significant bits, and a fixed spacing of
  \<open>pow2 (- 1074)\<close> below \<open>pow2 (- 1022)\<close>. Overflow to infinity does not arise in
  \<^verbatim>\<open>_deg_to_dms\<close> (its products are at most 60) and is not modelled; NaN and the
  infinities are not inputs of the model.
\<close>

text \<open>\<^verbatim>\<open>int.bit_length\<close> of a non-negative integer.\<close>

function bit_length :: "int \<Rightarrow> int" where
  "bit_length n = (if n \<le> 0 then 0 else 1 + bit_length (n div 2))"
  by pat_completeness auto
termination
  by (relation "measure nat") auto

definition pow2 :: "int \<Rightarrow> rat" where
  "pow2 e = (if 0 \<le> e then 2 ^ nat e else 1 / 2 ^ nat (- e))"

text \<open>The binary exponent of a non-zero rational: \<open>pow2 e \<le> \<bar>x\<bar> < pow2 (e + 1)\<close>.\<close>

definition ilog2 :: "rat \<Rightarrow> int" where
  "ilog2 x =
     (let a = numerator \<bar>x\<bar>; b = denominator \<bar>x\<bar>;
          e0 = bit_length a - bit_length b
      in if pow2 e0 \<le> \<bar>x\<bar> then e0 else e0 - 1)"

definition round_half_even :: "rat \<Rightarrow> int" where
  "round_half_even x =
     (let f = \<lfloor>x\<rfloor>; r = x - of_int f
      in if r < 1 / 2 then f
         else if 1 / 2 < r then f + 1
         else if even f then f else f + 1)"

definition float_round :: "rat \<Rightarrow> rat" where
  "float_round x =
     (if x = 0 then 0
      else let e = max (ilog2 x - 52) (- 1074)
           in of_int (round_half_even (x / pow2 e)) * pow2 e)"

definition float_sub :: "rat \<Rightarrow> rat \<Rightarrow> rat" where
  "float_sub x y = float_round (x - y)"

definition float_mul :: "rat \<Rightarrow> rat \<Rightarrow> rat" where
  "float_mul x y = float_round (x * y)"

text \<open>\<^verbatim>\<open>int(x)\<close> of a finite float truncates towards zero.\<close>

definition int_of_float :: "rat \<Rightarrow> int" where
  "int_of_float x = (if 0 \<le> x then \<lfloor>x\<rfloor> else \<lceil>x\<rceil>)"

text \<open>
  \<^verbatim>\<open>_deg_to_dms(dd)\<close>. In \<^verbatim>\<open>dd - d\<close> and \<^verbatim>\<open>m_float - m\<close> the integer operand is
  converted to a float first. The tuple is built left to right.
\<close>

definition u_deg_to_dms ::
  "rat \<Rightarrow> pyerror + ((int \<times> int) \<times> (int \<times> int) \<times> (int \<times> int))" where
  "u_deg_to_dms dd0 =
     (let dd = \<bar>dd0\<bar>;
          d = int_of_float dd;
          m_float = float_mul (float_sub dd (float_round (of_int d))) 60;
          m = int_of_float m_float;
          s = float_mul (float_sub m_float (float_round (of_int m))) 60
      in case u_rat (of_int d) 1000000 of
           Inl e \<Rightarrow> Inl e
         | Inr rd \<Rightarrow>
             (case u_rat (of_int m) 1000000 of
                Inl e \<Rightarrow> Inl e
              | Inr rm \<Rightarrow>
                  (case u_rat s 1000000 of
                     Inl e \<Rightarrow> Inl e
                   | Inr rs \<Rightarrow> Inr (rd, rm, rs))))"

subsection \<open>Dates, the receiver and the module globals\<close>

record datetime =
  year :: nat
  month :: nat
  day :: nat
  hour :: nat
  minute :: nat
  second :: nat

definition digit :: "nat \<Rightarrow> char" where
  "digit n = ''0123456789'' ! (n mod 10)"

definition pad2 :: "nat \<Rightarrow> string" where
  "pad2 n = [digit (n div 10), digit n]"

definition pad4 :: "nat \<Rightarrow> string" where
  "pad4 n = [digit (n div 1000), digit (n div 100), digit (n div 10), digit n]"

text \<open>
  \<^verbatim>\<open>strftime\<close> with the three formats of the module: \<^verbatim>\<open>'%Y:%m:%d %H:%M:%S'\<close>,
  \<^verbatim>\<open>'%Y:%m:%d'\<close> and \<^verbatim>\<open>'photo_%Y%m%d_%H%M%S.jpg'\<close> (four-digit years).
\<close>

definition strftime_exif :: "datetime \<Rightarrow> string" where
  "strftime_exif t =
     pad4 (year t) @ '':'' @ pad2 (month t) @ '':'' @ pad2 (day t) @ '' '' @
     pad2 (hour t) @ '':'' @ pad2 (minute t) @ '':'' @ pad2 (second t)"

definition strftime_date :: "datetime \<Rightarrow> string" where
  "strftime_date t = pad4 (year t) @ '':'' @ pad2 (month t) @ '':'' @ pad2 (day t)"

definition strftime_photo :: "datetime \<Rightarrow> string" where
  "strftime_photo t =
     ''photo_'' @ pad4 (year t) @ pad2 (month t) @ pad2 (day t) @ ''_'' @
     pad2 (hour t) @ pad2 (minute t) @ pad2 (second t) @ ''.jpg''"

text \<open>\<^verbatim>\<open>gps.timestamp_utc\<close> is a \<^verbatim>\<open>time.struct_time\<close> or \<^verbatim>\<open>None\<close>.\<close>

record struct_time =
  tm_year :: int
  tm_mon :: int
  tm_mday :: int
  tm_hour :: int
  tm_min :: int
  tm_sec :: int

text \<open>
  The attributes of the global receiver object \<^verbatim>\<open>gps\<close> that \<^verbatim>\<open>make_exif\<close> reads; each
  is \<^verbatim>\<open>None\<close> until the receiver has reported it.
\<close>

record receiver =
  latitude :: "rat option"
  longitude :: "rat option"
  altitude_m :: "rat option"
  timestamp_utc :: "struct_time option"

text \<open>
  What a call reads besides its arguments: the import flags of the module, the receiver
  object, the image directory, and the value \<^verbatim>\<open>datetime.now(timezone.utc)\<close> returns.
\<close>

record world =
  EXIF_OK :: bool
  GPS_AVAILABLE :: bool
  PICAMERA2 :: bool
  gps :: receiver
  utc_now :: datetime
  IMAGE_DIR :: string

subsection \<open>\<^verbatim>\<open>make_exif\<close>\<close>

text \<open>The piexif tag constants the module uses, by name.\<close>

datatype tag =
  DateTime | Make | Model | Software
  | DateTimeOriginal | DateTimeDigitized | UserComment
  | GPSLatitudeRef | GPSLatitude | GPSLongitudeRef | GPSLongitude
  | GPSAltitudeRef | GPSAltitude | GPSDateStamp | GPSTimeStamp

datatype exif_value =
  Str string
  | Bytes string
  | IntVal int
  | Rational "int \<times> int"
  | Rational3 "(int \<times> int) \<times> (int \<times> int) \<times> (int \<times> int)"

type_synonym ifd = "(tag \<times> exif_value) list"

text \<open>The dictionary \<^verbatim>\<open>{"0th": {}, "Exif": {}, "GPS": {}, "1st": {}, "Interop": {}}\<close>.\<close>

record exif =
  ifd_0th :: ifd
  ifd_Exif :: ifd
  ifd_GPS :: ifd
  ifd_1st :: ifd
  ifd_Interop :: ifd

definition set_0th :: "tag \<Rightarrow> exif_value \<Rightarrow> exif \<Rightarrow> exif" where
  "set_0th k v e = e\<lparr>ifd_0th := AList.update k v (ifd_0th e)\<rparr>"

definition set_Exif :: "tag \<Rightarrow> exif_value \<Rightarrow> exif \<Rightarrow> exif" where
  "set_Exif k v e = e\<lparr>ifd_Exif := AList.update k v (ifd_Exif e)\<rparr>"

definition set_GPS :: "tag \<Rightarrow> exif_value \<Rightarrow> exif \<Rightarrow> exif" where
  "set_GPS k v e = e\<lparr>ifd_GPS := AList.update k v (ifd_GPS e)\<rparr>"

text \<open>\<^verbatim>\<open>b"ASCII\0\0\0" + json.dumps({"project": "OpenSenseCam"}, separators=(",", ":"))\<close>\<close>

definition user_comment :: string where
  "user_comment =
     ''ASCII'' @ [CHR 0x00, CHR 0x00, CHR 0x00] @ ''{'' @ [CHR 0x22] @ ''project'' @
     [CHR 0x22] @ '':'' @ [CHR 0x22] @ ''OpenSenseCam'' @ [CHR 0x22] @ ''}''"

text \<open>Lines 113 to 130: the tags that do not depend on the receiver.\<close>

definition base_exif :: "datetime \<Rightarrow> exif" where
  "base_exif now_local_dt =
     (let dt_str = strftime_exif now_local_dt in
      set_Exif UserComment (Bytes user_comment)
       (set_0th DateTime (Str dt_str)
        (set_0th Software (Str ''OpenSenseCam Script'')
         (set_0th Model (Str ''Camera Module 3'')
          (set_0th Make (Str ''Raspberry Pi'')
           (set_Exif DateTimeDigitized (Str dt_str)
            (set_Exif DateTimeOriginal (Str dt_str)
             (set_0th DateTime (Str dt_str)
               \<lparr>ifd_0th = [], ifd_Exif = [], ifd_GPS = [], ifd_1st = [],
                ifd_Interop = []\<rparr>))))))))"

text \<open>
  Lines 145 to 147: the altitude tags, written only when \<^verbatim>\<open>alt is not None\<close>.
\<close>

definition altitude_tags :: "rat option \<Rightarrow> exif \<Rightarrow> pyerror + exif" where
  "altitude_tags alt e =
     (case alt of
        None \<Rightarrow> Inr e
      | Some a \<Rightarrow>
          (case u_rat \<bar>a\<bar> 1000 of
             Inl err \<Rightarrow> Inl err
           | Inr r \<Rightarrow>
               Inr (set_GPS GPSAltitude (Rational r)
                     (set_GPS GPSAltitudeRef (IntVal (if 0 \<le> a then 0 else 1)) e))))"

text \<open>
  Lines 150 to 152: the date stamp is the date of \<^verbatim>\<open>datetime.now(timezone.utc)\<close>, the time
  stamp is read from \<^verbatim>\<open>gps.timestamp_utc\<close>, whose attributes do not exist when it is
  \<^verbatim>\<open>None\<close>.
\<close>

definition timestamp_tags :: "world \<Rightarrow> exif \<Rightarrow> pyerror + exif" where
  "timestamp_tags w e =
     (let ts_utc = utc_now w;
          e1 = set_GPS GPSDateStamp (Str (strftime_date ts_utc)) e
      in case timestamp_utc (gps w) of
           None \<Rightarrow> Inl AttributeError
         | Some t \<Rightarrow>
             (case u_rat (of_int (tm_hour t)) 1000000 of
                Inl err \<Rightarrow> Inl err
              | Inr h \<Rightarrow>
                  (case u_rat (of_int (tm_min t)) 1000000 of
                     Inl err \<Rightarrow> Inl err
                   | Inr m \<Rightarrow>
                       (case u_rat (of_int (tm_sec t)) 1000000 of
                          Inl err \<Rightarrow> Inl err
                        | Inr s \<Rightarrow> Inr (set_GPS GPSTimeStamp (Rational3 (h, m, s)) e1)))))"

text \<open>
  \<^verbatim>\<open>make_exif(now_local_dt, fix)\<close>. The name \<^verbatim>\<open>piexif\<close> is unbound when its import
  failed (the guard on \<^verbatim>\<open>EXIF_OK\<close> is commented out), so the first tag constant raises
  NameError. The parameter \<open>fix\<close> does not occur in the body. With the GPS library
  present the function reads \<^verbatim>\<open>gps.latitude\<close>, \<^verbatim>\<open>gps.longitude\<close> and
  \<^verbatim>\<open>gps.altitude_m\<close>, returns the tags built so far when the latitude is \<^verbatim>\<open>None\<close>, and
  otherwise writes the positioning tags; \<^verbatim>\<open>lon >= 0\<close> raises TypeError for \<^verbatim>\<open>None\<close>.
\<close>

definition make_exif :: "world \<Rightarrow> datetime \<Rightarrow> pyobj \<Rightarrow> pyerror + exif" where
  "make_exif w now_local_dt fix =
     (if \<not> EXIF_OK w then Inl NameError
      else
        let exif = base_exif now_local_dt in
        if GPS_AVAILABLE w then
          (case latitude (gps w) of
             None \<Rightarrow> Inr exif
           | Some lat \<Rightarrow>
               (case u_deg_to_dms lat of
                  Inl err \<Rightarrow> Inl err
                | Inr lat_dms \<Rightarrow>
                    (case longitude (gps w) of
                       None \<Rightarrow> Inl TypeError
                     | Some lon \<Rightarrow>
                         (case u_deg_to_dms lon of
                            Inl err \<Rightarrow> Inl err
                          | Inr lon_dms \<Rightarrow>
                              (case altitude_tags (altitude_m (gps w))
                                      (set_GPS GPSLongitude (Rational3 lon_dms)
                                        (set_GPS GPSLongitudeRef
                                          (Str (if 0 \<le> lon then ''E'' else ''W''))
                                          (set_GPS GPSLatitude (Rational3 lat_dms)
                                            (set_GPS GPSLatitudeRef
                                              (Str (if 0 \<le> lat then ''N'' else ''S''))
                                              exif)))) of
                                 Inl err \<Rightarrow> Inl err
                               | Inr e \<Rightarrow> timestamp_tags w e)))))
        else Inr exif)"

subsection \<open>CameraPoller\<close>

text \<open>
  The fields of a \<^verbatim>\<open>CameraPoller\<close> that \<^verbatim>\<open>run\<close> reads: the wait interval in seconds
  and whether \<^verbatim>\<open>self._pc2\<close> holds a camera handle.
\<close>

record CameraPoller =
  interval :: rat
  pc2 :: bool

text \<open>
  \<^verbatim>\<open>CameraPoller.__init__\<close>: the handle is set only when the picamera2 import succeeded
  and creating, configuring and starting the camera raised nothing (\<open>camera_starts\<close>).
\<close>

definition CameraPoller_init :: "world \<Rightarrow> bool \<Rightarrow> rat \<Rightarrow> CameraPoller" where
  "CameraPoller_init w camera_starts ival =
     \<lparr>interval = ival, pc2 = (PICAMERA2 w \<and> camera_starts)\<rparr>"

text \<open>
  What the loop does to the outside, in order. \<open>PrintSaved\<close> is the message
  "[Camera] Saved ... with EXIF data Fix: ..." with what it interpolates: the path, the
  tags and, when the GPS library is present, the receiver object.
\<close>

datatype event =
  Print string
  | CaptureFile
  | Save string string exif
  | PrintSaved string string exif "receiver option"
  | Wait rat
  | Close

text \<open>
  What one pass of the loop finds: whether \<^verbatim>\<open>self._stop.is_set()\<close> holds at its head,
  the local clock, the globals and the shared state at that moment, what
  \<^verbatim>\<open>capture_file\<close> does (the JPEG bytes, or an exception), and the seconds the body of
  the pass takes. The code measures no time: \<open>elapsed\<close> is not read by any definition.
\<close>

record cycle =
  stop_is_set :: bool
  now_local :: datetime
  cyc_world :: world
  cyc_state :: SharedState
  capture :: "pyerror + string"
  elapsed :: rat

text \<open>
  The body of the \<^verbatim>\<open>while\<close> loop up to the wait: the events of the pass and the
  exception that ends it, if any. Encoding the tags (\<^verbatim>\<open>piexif.dump\<close>) and writing the
  file are one \<open>Save\<close> event with the directory, the file name and the tags. The last
  message names the receiver only when \<^verbatim>\<open>GPS_AVAILABLE\<close> holds (\<open>printed_gps\<close>).
\<close>

definition printed_gps :: "world \<Rightarrow> receiver option" where
  "printed_gps w = (if GPS_AVAILABLE w then Some (gps w) else None)"

definition cycle_body :: "CameraPoller \<Rightarrow> cycle \<Rightarrow> event list \<times> pyerror option" where
  "cycle_body cam c =
     (let fname = strftime_photo (now_local c) in
      case get_fix (cyc_state c) of
        Inl err \<Rightarrow> ([], Some err)
      | Inr fix \<Rightarrow>
          if PICAMERA2 (cyc_world c) \<and> pc2 cam then
            (case capture c of
               Inl err \<Rightarrow> ([Print ''Taking a photo..'', CaptureFile], Some err)
             | Inr img_bytes \<Rightarrow>
                 (case make_exif (cyc_world c) (now_local c) fix of
                    Inl err \<Rightarrow> ([Print ''Taking a photo..'', CaptureFile], Some err)
                  | Inr exif_dict \<Rightarrow>
                      ([Print ''Taking a photo..'', CaptureFile,
                        Save (IMAGE_DIR (cyc_world c)) fname exif_dict,
                        PrintSaved (IMAGE_DIR (cyc_world c)) fname exif_dict
                          (printed_gps (cyc_world c))], None)))
          else ([Print ''[Camera] No camera found..''], None))"

datatype outcome = Returned | Raised pyerror | Running

text \<open>
  The \<^verbatim>\<open>while not self._stop.is_set()\<close> loop over the passes observed so far. Each pass
  that raises nothing ends with \<^verbatim>\<open>self._stop.wait(self.interval)\<close>. When the observed
  passes are used up the loop is still running.
\<close>

fun run_loop :: "CameraPoller \<Rightarrow> cycle list \<Rightarrow> event list \<times> outcome" where
  "run_loop cam [] = ([], Running)"
| "run_loop cam (c # cs) =
     (if stop_is_set c then ([], Returned)
      else
        (case cycle_body cam c of
           (evs, Some err) \<Rightarrow> (evs, Raised err)
         | (evs, None) \<Rightarrow>
             (case run_loop cam cs of
                (evs', out) \<Rightarrow> (evs @ [Wait (interval cam)] @ evs', out))))"

text \<open>
  \<^verbatim>\<open>CameraPoller.run\<close>: the loop inside \<^verbatim>\<open>try\<close>, and in \<^verbatim>\<open>finally\<close> the camera is
  closed if there is a handle.
\<close>

definition run :: "CameraPoller \<Rightarrow> cycle list \<Rightarrow> event list \<times> outcome" where
  "run cam cs =
     (case run_loop cam cs of
        (evs, out) \<Rightarrow>
          (if out \<noteq> Running \<and> pc2 cam then (evs @ [Close], out) else (evs, out)))"

text \<open>
  The start of \<^verbatim>\<open>main\<close>: without the picamera2 import it prints once and returns 1;
  no thread is created. \<open>None\<close> stands for going on to create and start the threads.
\<close>

definition main_camera_check :: "world \<Rightarrow> (event list \<times> int) option" where
  "main_camera_check w =
     (if \<not> PICAMERA2 w then Some ([Print ''Camera not found..''], 1) else None)"


subsection \<open>Definitions used in the statements and proofs\<close>

declare limit_denominator_loop.simps [simp del]

declare bit_length.simps [simp del]

text \<open>
  The invariant of the loop of \<^verbatim>\<open>limit_denominator\<close> for the fraction \<open>N / D\<close> and the
  bound \<open>M\<close>: the two equations that recover \<open>N\<close> and \<open>D\<close> from the state, the determinant
  of the two candidates, the bounds on the denominators, and the phase (before the first
  pass, or after it with \<open>d < n\<close>).
\<close>

definition cf_inv ::
  "int \<Rightarrow> int \<Rightarrow> int \<Rightarrow> int \<Rightarrow> int \<Rightarrow> int \<Rightarrow> int \<Rightarrow> int \<Rightarrow> int \<Rightarrow> bool" where
  "cf_inv M N D p0 q0 p1 q1 n d \<longleftrightarrow>
     p1 * n + p0 * d = N \<and> q1 * n + q0 * d = D \<and> \<bar>p0 * q1 - p1 * q0\<bar> = 1 \<and>
     0 \<le> q0 \<and> q0 \<le> M \<and> q1 \<le> M \<and> 0 \<le> d \<and>
     ((q1 = 0 \<and> q0 = 1) \<or> (1 \<le> q1 \<and> d < n))"

text \<open>
  The two floats of \<^verbatim>\<open>_deg_to_dms\<close>, as functions of its argument: \<^verbatim>\<open>m_float\<close>, the
  double-precision product \<^verbatim>\<open>(dd - d) * 60\<close>, and \<^verbatim>\<open>s\<close>, the double-precision product
  \<^verbatim>\<open>(m_float - m) * 60\<close>.
\<close>

definition dms_m_float :: "rat \<Rightarrow> rat" where
  "dms_m_float x = float_mul (float_sub \<bar>x\<bar> (float_round (of_int \<lfloor>\<bar>x\<bar>\<rfloor>))) 60"

definition dms_s_float :: "rat \<Rightarrow> rat" where
  "dms_s_float x =
     float_mul
       (float_sub (dms_m_float x) (float_round (of_int (int_of_float (dms_m_float x))))) 60"

text \<open>
  The fractional part of \<open>y\<close> times 60, in exact arithmetic. The specification takes the
  whole minutes from this product at \<open>y = \<bar>x\<bar>\<close>; the code rounds the product to a double
  before it takes the integer part.
\<close>

definition frac_times_60 :: "rat \<Rightarrow> rat" where
  "frac_times_60 y = (y - of_int \<lfloor>y\<rfloor>) * 60"

text \<open>The altitude entries of the GPS group, in the order \<^verbatim>\<open>make_exif\<close> writes them.\<close>

definition altitude_part :: "rat option \<Rightarrow> ifd" where
  "altitude_part alt =
     (case alt of
        None \<Rightarrow> []
      | Some a \<Rightarrow>
          (case u_rat \<bar>a\<bar> 1000 of
             Inl err \<Rightarrow> []
           | Inr r \<Rightarrow> [(GPSAltitudeRef, IntVal (if 0 \<le> a then 0 else 1)),
                      (GPSAltitude, Rational r)]))"

subsection \<open>Concrete inputs\<close>

text \<open>
  A receiver with a position (51.5 N, 0.125 W, 35 m) and the timestamp
  2024-01-01 23:59:58, a system clock that reads 2024-01-02 00:00:01 UTC, and a pass of
  the capture loop that takes three seconds.
\<close>

definition ex_receiver :: receiver where
  "ex_receiver =
     \<lparr>latitude = Some (103 / 2), longitude = Some (- 1 / 8), altitude_m = Some 35,
      timestamp_utc =
        Some \<lparr>tm_year = 2024, tm_mon = 1, tm_mday = 1, tm_hour = 23, tm_min = 59,
              tm_sec = 58\<rparr>\<rparr>"

definition ex_world :: world where
  "ex_world =
     \<lparr>EXIF_OK = True, GPS_AVAILABLE = True, PICAMERA2 = True, gps = ex_receiver,
      utc_now = \<lparr>year = 2024, month = 1, day = 2, hour = 0, minute = 0, second = 1\<rparr>,
      IMAGE_DIR = ''/var/lib/opensensecam''\<rparr>"

definition ex_now :: datetime where
  "ex_now = \<lparr>year = 2024, month = 1, day = 2, hour = 1, minute = 0, second = 0\<rparr>"

definition ex_cycle :: cycle where
  "ex_cycle =
     \<lparr>stop_is_set = False, now_local = ex_now, cyc_world = ex_world,
      cyc_state = SharedState_init, capture = Inr ''JPEG'', elapsed = 3\<rparr>"

text \<open>
  The tag that carries the position, the altitude and the time of day of \<open>ex_receiver\<close>,
  with the date of the system clock of \<open>ex_world\<close>.
\<close>

definition ex_tag :: exif where
  "ex_tag =
     (base_exif ex_now)\<lparr>ifd_GPS :=
        [(GPSLatitudeRef, Str ''N''), (GPSLatitude, Rational3 ((51, 1), (30, 1), (0, 1))),
         (GPSLongitudeRef, Str ''W''), (GPSLongitude, Rational3 ((0, 1), (7, 1), (30, 1))),
         (GPSAltitudeRef, IntVal 0), (GPSAltitude, Rational (35, 1)),
         (GPSDateStamp, Str ''2024:01:02''),
         (GPSTimeStamp, Rational3 ((23, 1), (59, 1), (58, 1)))]\<rparr>"

text \<open>A second receiver, at 33.875 S, 151.25 E, with the same timestamp and no altitude.\<close>

definition syd_receiver :: receiver where
  "syd_receiver =
     \<lparr>latitude = Some (- 271 / 8), longitude = Some (605 / 4), altitude_m = None,
      timestamp_utc =
        Some \<lparr>tm_year = 2024, tm_mon = 1, tm_mday = 1, tm_hour = 23, tm_min = 59,
              tm_sec = 58\<rparr>\<rparr>"


section \<open>Properties of SharedState\<close>

text \<open>
  C1 (the code at a failing input). The claim is that after any sequence of publishes the
  snapshot is the published fix of maximal quality, a candidate of quality \<open>\<ge>\<close> the held
  one replacing it. On the code: the first publish on a fresh registry raises
  AttributeError and the snapshot stays \<^verbatim>\<open>None\<close>; where a fix with the attribute is
  held, the comparison is the other way round, a better (or equal) candidate is skipped
  and a worse one is stored.
\<close>

theorem set_fix_does_not_keep_best:
  "set_fix SharedState_init (PyFix 1 [(''lat'', ''51.5'')]) = Inl AttributeError
   \<and> get_fix SharedState_init = Inr PyNone
   \<and> set_fix \<lparr>latest_fix = PyFix 1 [(''lat'', ''51.5'')]\<rparr> (PyFix 2 [(''lat'', ''48.1'')])
       = Inr \<lparr>latest_fix = PyFix 1 [(''lat'', ''51.5'')]\<rparr>
   \<and> set_fix \<lparr>latest_fix = PyFix 1 [(''lat'', ''51.5'')]\<rparr> (PyFix 1 [(''lat'', ''48.1'')])
       = Inr \<lparr>latest_fix = PyFix 1 [(''lat'', ''51.5'')]\<rparr>
   \<and> set_fix \<lparr>latest_fix = PyFix 2 [(''lat'', ''48.1'')]\<rparr> (PyFix 1 [(''lat'', ''51.5'')])
       = Inr \<lparr>latest_fix = PyDict [(''lat'', ''51.5'')]\<rparr>"
  by (simp add: set_fix_def get_fix_def SharedState_init_def)

text \<open>
  C2 (the code at a failing input). The claim is that publishing on a registry that holds
  no fix succeeds and stores the candidate. On the code every such call raises
  AttributeError, whatever the candidate: \<^verbatim>\<open>self._latest_fix\<close> is \<^verbatim>\<open>None\<close> and its
  attribute \<^verbatim>\<open>fix_quality\<close> is read first.
\<close>

theorem set_fix_on_empty_registry_raises:
  "set_fix SharedState_init fix_dict = Inl AttributeError"
  by (simp add: set_fix_def SharedState_init_def)

text \<open>
  C9. A snapshot of a registry on which nothing was ever published is \<^verbatim>\<open>None\<close>: the
  call does not raise and returns no fix object.
\<close>

theorem get_fix_before_any_publish:
  "get_fix SharedState_init = Inr PyNone"
  by (simp add: get_fix_def SharedState_init_def)


section \<open>Properties of the capture loop\<close>

lemma get_fix_returns: "\<exists>v. get_fix s = Inr v"
  by (cases "latest_fix s") (simp_all add: get_fix_def)

lemma cycle_body_no_camera:
  "\<not> pc2 cam \<Longrightarrow> cycle_body cam c = ([Print ''[Camera] No camera found..''], None)"
  using get_fix_returns [of "cyc_state c"] by (auto simp: cycle_body_def Let_def)

lemma run_loop_no_camera:
  "\<not> pc2 cam \<Longrightarrow>
   run_loop cam cs =
     (concat (map (\<lambda>c. [Print ''[Camera] No camera found..'', Wait (interval cam)])
                (takeWhile (\<lambda>c. \<not> stop_is_set c) cs)),
      if list_ex stop_is_set cs then Returned else Running)"
  by (induction cs) (simp_all add: cycle_body_no_camera)

text \<open>
  C5, as stated, fails: with no camera handle the loop does not print once and leave. Here
  the stop request is seen at the head of the third pass; the message has been printed
  twice and the loop has waited twice by then.
\<close>

theorem run_without_camera_counterexample:
  "run (CameraPoller_init ex_world False 10)
       [ex_cycle, ex_cycle, ex_cycle\<lparr>stop_is_set := True\<rparr>] =
     ([Print ''[Camera] No camera found..'', Wait 10,
       Print ''[Camera] No camera found..'', Wait 10], Returned)"
  by (simp add: run_def cycle_body_def Let_def get_fix_def SharedState_init_def CameraPoller_init_def
        ex_cycle_def ex_world_def)

text \<open>
  C5, amended. If the camera handle is unavailable when the loop starts (the picamera2
  import failed, or creating, configuring or starting the camera raised), every pass of
  the loop prints "[Camera] No camera found.." once and then waits the configured
  interval; nothing is captured or saved, and the loop goes on until a stop request is
  seen at the head of a pass. Printing once and leaving is what \<^verbatim>\<open>main\<close> does, before
  any loop is started, when the picamera2 import failed.
\<close>

theorem run_without_camera_handle:
  "(\<not> (PICAMERA2 w \<and> camera_starts) \<longrightarrow>
      run (CameraPoller_init w camera_starts ival) cs =
        (concat (map (\<lambda>c. [Print ''[Camera] No camera found..'', Wait ival])
                   (takeWhile (\<lambda>c. \<not> stop_is_set c) cs)),
         if list_ex stop_is_set cs then Returned else Running))
   \<and> (\<not> PICAMERA2 w \<longrightarrow> main_camera_check w = Some ([Print ''Camera not found..''], 1))"
  by (simp add: run_def run_loop_no_camera CameraPoller_init_def main_camera_check_def)

theorem run_without_camera_handle_witness:
  "\<not> (PICAMERA2 ex_world \<and> False)
   \<and> run (CameraPoller_init ex_world False 10)
         [ex_cycle, ex_cycle\<lparr>stop_is_set := True\<rparr>] =
       ([Print ''[Camera] No camera found..'', Wait 10], Returned)
   \<and> \<not> PICAMERA2 (ex_world\<lparr>PICAMERA2 := False\<rparr>)
   \<and> main_camera_check (ex_world\<lparr>PICAMERA2 := False\<rparr>) =
       Some ([Print ''Camera not found..''], 1)"
  using run_without_camera_handle
          [of ex_world False 10 "[ex_cycle, ex_cycle\<lparr>stop_is_set := True\<rparr>]"]
        run_without_camera_handle [of "ex_world\<lparr>PICAMERA2 := False\<rparr>" False 10 "[]"]
  by (simp add: ex_cycle_def)

lemma run_loop_waits: "Wait t \<in> set (fst (run_loop cam cs)) \<Longrightarrow> t = interval cam"
proof (induction cs)
  case Nil
  then show ?case by simp
next
  case (Cons c cs)
  show ?case
  proof (cases "stop_is_set c")
    case True
    with Cons.prems show ?thesis by simp
  next
    case False
    obtain evs r where b: "cycle_body cam c = (evs, r)" by (cases "cycle_body cam c")
    have evs: "Wait t \<notin> set evs"
      using b by (auto simp: cycle_body_def Let_def split: sum.splits if_splits)
    show ?thesis
    proof (cases r)
      case None
      obtain evs' out where l: "run_loop cam cs = (evs', out)" by (cases "run_loop cam cs")
      from Cons.prems False b None l evs have "t = interval cam \<or> Wait t \<in> set evs'" by auto
      with Cons.IH l show ?thesis by auto
    next
      case (Some err)
      with Cons.prems False b evs show ?thesis by simp
    qed
  qed
qed

lemma cycle_body_elapsed: "cycle_body cam (c\<lparr>elapsed := x\<rparr>) = cycle_body cam c"
  by (simp add: cycle_body_def Let_def split: sum.split)

lemma run_loop_elapsed: "run_loop cam (map (\<lambda>c. c\<lparr>elapsed := f c\<rparr>) cs) = run_loop cam cs"
  by (induction cs) (simp_all add: cycle_body_elapsed)

text \<open>
  C6, as stated, fails: the interval is 10 seconds, the pass takes 3 seconds and saves a
  photo, and the loop then waits 10 seconds, not the 7 that remain.
\<close>

theorem run_wait_counterexample:
  "run \<lparr>interval = 10, pc2 = True\<rparr>
       [ex_cycle\<lparr>cyc_world := ex_world\<lparr>GPS_AVAILABLE := False\<rparr>\<rparr>,
        ex_cycle\<lparr>stop_is_set := True\<rparr>] =
     ([Print ''Taking a photo..'', CaptureFile,
       Save ''/var/lib/opensensecam'' ''photo_20240102_010000.jpg'' (base_exif ex_now),
       PrintSaved ''/var/lib/opensensecam'' ''photo_20240102_010000.jpg'' (base_exif ex_now)
         None,
       Wait 10, Close], Returned)
   \<and> elapsed (ex_cycle\<lparr>cyc_world := ex_world\<lparr>GPS_AVAILABLE := False\<rparr>\<rparr>) = 3
   \<and> max 0 (10 - elapsed (ex_cycle\<lparr>cyc_world := ex_world\<lparr>GPS_AVAILABLE := False\<rparr>\<rparr>)) = 7"
  by (simp add: run_def cycle_body_def Let_def get_fix_def SharedState_init_def make_exif_def
        printed_gps_def ex_cycle_def ex_world_def ex_now_def strftime_photo_def pad2_def
        pad4_def digit_def)

text \<open>
  C6, amended. After every pass that raises nothing the loop waits for the whole
  configured interval (or until stop is requested), whatever time the pass itself took.
  The events of such a pass hold no wait and are followed by one wait for the interval,
  then by the rest of the run; this holds of a pass that captures and saves a photo and
  of a pass that finds no camera alike, and for every elapsed time of the pass. Every
  wait of a run is for the interval, and the run is the same whatever the elapsed times
  are. The time a pass takes is not subtracted, so a cycle lasts the capture time plus
  the interval.
\<close>

theorem run_waits_full_interval:
  "(\<not> stop_is_set c \<and> cycle_body cam c = (evs, None) \<longrightarrow>
      Wait t \<notin> set evs
      \<and> run cam (c # cs) = (evs @ Wait (interval cam) # fst (run cam cs), snd (run cam cs))
      \<and> run cam (c\<lparr>elapsed := x\<rparr> # cs) =
          (evs @ Wait (interval cam) # fst (run cam cs), snd (run cam cs)))
   \<and> (\<forall>t. Wait t \<in> set (fst (run cam cs)) \<longrightarrow> t = interval cam)
   \<and> run cam (map (\<lambda>c. c\<lparr>elapsed := f c\<rparr>) cs) = run cam cs"
proof -
  have pass: "Wait t \<notin> set evs
      \<and> run cam (c # cs) = (evs @ Wait (interval cam) # fst (run cam cs), snd (run cam cs))
      \<and> run cam (c\<lparr>elapsed := x\<rparr> # cs) =
          (evs @ Wait (interval cam) # fst (run cam cs), snd (run cam cs))"
    if s: "\<not> stop_is_set c" and b: "cycle_body cam c = (evs, None)"
  proof -
    have 1: "Wait t \<notin> set evs"
      using b by (auto simp: cycle_body_def Let_def split: sum.splits if_splits)
    obtain evs' out where l: "run_loop cam cs = (evs', out)" by (cases "run_loop cam cs")
    have 2: "run cam (c # cs) =
               (evs @ Wait (interval cam) # fst (run cam cs), snd (run cam cs))"
      using s b l by (simp add: run_def)
    have 3: "run cam (c\<lparr>elapsed := x\<rparr> # cs) =
               (evs @ Wait (interval cam) # fst (run cam cs), snd (run cam cs))"
      using s b l by (simp add: run_def cycle_body_elapsed)
    from 1 2 3 show ?thesis by blast
  qed
  have waits: "Wait t \<in> set (fst (run cam cs)) \<Longrightarrow> t = interval cam" for t
    using run_loop_waits [of t cam cs]
    by (auto simp: run_def split: prod.splits if_splits)
  have el: "run cam (map (\<lambda>c. c\<lparr>elapsed := f c\<rparr>) cs) = run cam cs"
    by (simp add: run_def run_loop_elapsed)
  from pass waits el show ?thesis by blast
qed

theorem run_waits_full_interval_witness:
  "\<not> stop_is_set (ex_cycle\<lparr>cyc_world := ex_world\<lparr>GPS_AVAILABLE := False\<rparr>\<rparr>)
   \<and> elapsed (ex_cycle\<lparr>cyc_world := ex_world\<lparr>GPS_AVAILABLE := False\<rparr>\<rparr>) = 3
   \<and> cycle_body \<lparr>interval = 10, pc2 = True\<rparr>
        (ex_cycle\<lparr>cyc_world := ex_world\<lparr>GPS_AVAILABLE := False\<rparr>\<rparr>) =
       ([Print ''Taking a photo..'', CaptureFile,
         Save ''/var/lib/opensensecam'' ''photo_20240102_010000.jpg'' (base_exif ex_now),
         PrintSaved ''/var/lib/opensensecam'' ''photo_20240102_010000.jpg'' (base_exif ex_now)
           None], None)
   \<and> run \<lparr>interval = 10, pc2 = True\<rparr>
         [ex_cycle\<lparr>cyc_world := ex_world\<lparr>GPS_AVAILABLE := False\<rparr>\<rparr>,
          ex_cycle\<lparr>stop_is_set := True\<rparr>] =
       ([Print ''Taking a photo..'', CaptureFile,
         Save ''/var/lib/opensensecam'' ''photo_20240102_010000.jpg'' (base_exif ex_now),
         PrintSaved ''/var/lib/opensensecam'' ''photo_20240102_010000.jpg'' (base_exif ex_now)
           None]
        @ Wait (interval \<lparr>interval = 10, pc2 = True\<rparr>)
          # fst (run \<lparr>interval = 10, pc2 = True\<rparr> [ex_cycle\<lparr>stop_is_set := True\<rparr>]),
        snd (run \<lparr>interval = 10, pc2 = True\<rparr> [ex_cycle\<lparr>stop_is_set := True\<rparr>]))
   \<and> run \<lparr>interval = 10, pc2 = True\<rparr> [ex_cycle\<lparr>stop_is_set := True\<rparr>] = ([Close], Returned)
   \<and> interval \<lparr>interval = 10, pc2 = True\<rparr> = 10"
proof -
  let ?c = "ex_cycle\<lparr>cyc_world := ex_world\<lparr>GPS_AVAILABLE := False\<rparr>\<rparr>"
  let ?cam = "\<lparr>interval = 10 :: rat, pc2 = True\<rparr>"
  let ?evs = "[Print ''Taking a photo..'', CaptureFile,
         Save ''/var/lib/opensensecam'' ''photo_20240102_010000.jpg'' (base_exif ex_now),
         PrintSaved ''/var/lib/opensensecam'' ''photo_20240102_010000.jpg'' (base_exif ex_now)
           None]"
  have s: "\<not> stop_is_set ?c" "elapsed ?c = 3" by (simp_all add: ex_cycle_def)
  have b: "cycle_body ?cam ?c = (?evs, None)"
    by (simp add: cycle_body_def Let_def get_fix_def SharedState_init_def make_exif_def
        printed_gps_def ex_cycle_def ex_world_def ex_now_def strftime_photo_def pad2_def
        pad4_def digit_def)
  have r: "run ?cam [ex_cycle\<lparr>stop_is_set := True\<rparr>] = ([Close], Returned)"
    by (simp add: run_def)
  have i: "interval ?cam = 10" by simp
  from run_waits_full_interval
         [where c = ?c and cam = ?cam and evs = ?evs
            and cs = "[ex_cycle\<lparr>stop_is_set := True\<rparr>]"] s(1) b
  have "run ?cam [?c, ex_cycle\<lparr>stop_is_set := True\<rparr>] =
          (?evs @ Wait (interval ?cam) # fst (run ?cam [ex_cycle\<lparr>stop_is_set := True\<rparr>]),
           snd (run ?cam [ex_cycle\<lparr>stop_is_set := True\<rparr>]))"
    by blast
  with s b r i show ?thesis by blast
qed


section \<open>\<^verbatim>\<open>limit_denominator\<close> returns a closest fraction\<close>

text \<open>
  The loop keeps \<open>cf_inv\<close>. It cannot divide by zero: with \<open>d = 0\<close> the invariant gives
  \<open>D = q1 * n\<close> and \<open>N = p1 * n\<close>, so \<open>n = 1\<close> by coprimality and \<open>D = q1 \<le> M\<close>, but
  the loop is entered only for \<open>M < D\<close>.
\<close>

lemma cf_inv_init: "1 \<le> M \<Longrightarrow> 0 < D \<Longrightarrow> cf_inv M N D 0 1 1 0 N D"
  by (simp add: cf_inv_def)

lemma cf_inv_d_pos:
  assumes inv: "cf_inv M N D p0 q0 p1 q1 n d" and cop: "coprime N D" and MD: "M < D" and M: "1 \<le> M"
  shows "0 < d"
proof (rule ccontr)
  assume "\<not> 0 < d"
  with inv have d: "d = 0" by (simp add: cf_inv_def)
  from inv d have N: "p1 * n = N" and D: "q1 * n = D" and q1M: "q1 \<le> M"
    by (simp_all add: cf_inv_def)
  have "n dvd N" "n dvd D" using N D by (metis dvd_triv_right)+
  with cop have "is_unit n" by (meson coprime_common_divisor)
  then have "\<bar>n\<bar> = 1" by simp
  moreover from inv d have "0 \<le> q1" by (auto simp: cf_inv_def)
  ultimately have "\<bar>D\<bar> = q1" using D by (metis abs_mult abs_of_nonneg mult.right_neutral)
  with MD M q1M show False by linarith
qed

lemma cf_inv_step:
  assumes inv: "cf_inv M N D p0 q0 p1 q1 n d" and d: "0 < d"
    and le: "q0 + (n div d) * q1 \<le> M"
  shows "cf_inv M N D p1 q1 (p0 + (n div d) * p1) (q0 + (n div d) * q1) d (n - (n div d) * d)"
proof -
  let ?a = "n div d"
  have md: "n - ?a * d = n mod d" by (simp add: minus_div_mult_eq_mod)
  have m0: "0 \<le> n mod d" and m1: "n mod d < d" using d by simp_all
  from inv have N: "p1 * n + p0 * d = N" and D: "q1 * n + q0 * d = D"
    and det: "\<bar>p0 * q1 - p1 * q0\<bar> = 1" and q0: "0 \<le> q0" "q0 \<le> M" and q1: "q1 \<le> M"
    and ph: "(q1 = 0 \<and> q0 = 1) \<or> (1 \<le> q1 \<and> d < n)"
    by (simp_all add: cf_inv_def)
  have e1: "(p0 + ?a * p1) * d + p1 * (n - ?a * d) = N" using N by (simp add: algebra_simps)
  have e2: "(q0 + ?a * q1) * d + q1 * (n - ?a * d) = D" using D by (simp add: algebra_simps)
  have "p1 * (q0 + ?a * q1) - (p0 + ?a * p1) * q1 = - (p0 * q1 - p1 * q0)"
    by (simp add: algebra_simps)
  then have e3: "\<bar>p1 * (q0 + ?a * q1) - (p0 + ?a * p1) * q1\<bar> = 1" using det by simp
  have q1n: "0 \<le> q1" using ph by auto
  have e4: "1 \<le> q0 + ?a * q1"
  proof (cases "q1 = 0")
    case True
    with ph show ?thesis by simp
  next
    case False
    with ph have "1 \<le> q1" "d < n" by auto
    then have "0 < ?a" using d by (simp add: pos_imp_zdiv_pos_iff)
    then have "1 \<le> ?a" by linarith
    then have "q1 \<le> ?a * q1" using q1n by (simp add: mult_le_cancel_right1)
    with \<open>1 \<le> q1\<close> q0 show ?thesis by linarith
  qed
  show ?thesis
    unfolding cf_inv_def md
    using e1 e2 e3 e4 q1n q1 le m0 m1 d unfolding md by simp
qed

lemma loop_post:
  "cf_inv M N D p0 q0 p1 q1 n d \<Longrightarrow> coprime N D \<Longrightarrow> M < D \<Longrightarrow> 1 \<le> M \<Longrightarrow>
   \<exists>p0' q0' p1' q1' n' d'.
     limit_denominator_loop M p0 q0 p1 q1 n d = Inr (p0', q0', p1', q1') \<and>
     cf_inv M N D p0' q0' p1' q1' n' d' \<and> 0 < d' \<and> M < q0' + (n' div d') * q1'"
proof (induction M p0 q0 p1 q1 n d rule: limit_denominator_loop.induct)
  case (1 M p0 q0 p1 q1 n d)
  have d: "0 < d" using cf_inv_d_pos [OF "1.prems"] .
  show ?case
  proof (cases "M < q0 + (n div d) * q1")
    case True
    have "limit_denominator_loop M p0 q0 p1 q1 n d = Inr (p0, q0, p1, q1)"
      using d True by (subst limit_denominator_loop.simps) simp
    with "1.prems"(1) d True show ?thesis by blast
  next
    case False
    then have le: "q0 + (n div d) * q1 \<le> M" by simp
    have step: "cf_inv M N D p1 q1 (p0 + (n div d) * p1) (q0 + (n div d) * q1) d (n - (n div d) * d)"
      using cf_inv_step [OF "1.prems"(1) d le] .
    have eq: "limit_denominator_loop M p0 q0 p1 q1 n d =
          limit_denominator_loop M p1 q1 (p0 + (n div d) * p1) (q0 + (n div d) * q1) d (n - (n div d) * d)"
      using d False by (subst limit_denominator_loop.simps) (simp add: Let_def)
    have "d \<noteq> 0" using d by simp
    from "1.IH" [OF this refl refl _ step "1.prems"(2,3,4)] False
    show ?thesis unfolding eq by simp
  qed
qed


lemma farey_gap:
  fixes a b c d p q :: int
  assumes b: "0 < b" and d: "0 < d" and q: "0 < q" and det: "c * b - a * d = 1"
    and lo: "(of_int a / of_int b :: rat) < of_int p / of_int q"
    and hi: "(of_int p / of_int q :: rat) < of_int c / of_int d"
  shows "b + d \<le> q"
proof -
  from lo b q have "(of_int (a * q) :: rat) < of_int (p * b)"
    by (simp add: field_simps)
  then have 1: "a * q < p * b" by (simp only: of_int_less_iff)
  from hi d q have "(of_int (p * d) :: rat) < of_int (c * q)"
    by (simp add: field_simps)
  then have 2: "p * d < c * q" by (simp only: of_int_less_iff)
  have "q = q * (c * b - a * d)" using det by simp
  also have "\<dots> = b * (c * q - p * d) + d * (p * b - a * q)" by (simp add: algebra_simps)
  finally have eq: "q = b * (c * q - p * d) + d * (p * b - a * q)" .
  have "b * 1 \<le> b * (c * q - p * d)" using 2 b by (intro mult_left_mono) simp_all
  moreover have "d * 1 \<le> d * (p * b - a * q)" using 1 d by (intro mult_left_mono) simp_all
  ultimately show ?thesis using eq by linarith
qed

lemma bracket_closest:
  fixes x :: rat and a b c d p q :: int
  assumes b: "0 < b" and d: "0 < d" and q: "0 < q" and det: "c * b - a * d = 1"
    and lo: "of_int a / of_int b < x" and hi: "x < of_int c / of_int d"
    and qs: "q < b + d"
  shows "min \<bar>of_int a / of_int b - x\<bar> \<bar>of_int c / of_int d - x\<bar> \<le> \<bar>of_int p / of_int q - x\<bar>"
proof -
  let ?y = "of_int p / of_int q :: rat"
  have "\<not> (of_int a / of_int b < ?y \<and> ?y < of_int c / of_int d)"
    using farey_gap [OF b d q det] qs by fastforce
  then consider "?y \<le> of_int a / of_int b" | "of_int c / of_int d \<le> ?y" by linarith
  then show ?thesis
  proof cases
    case 1
    with lo show ?thesis by linarith
  next
    case 2
    with hi show ?thesis by linarith
  qed
qed

lemma coprime_of_det:
  fixes a b c d :: int
  assumes "\<bar>a * d - c * b\<bar> = 1"
  shows "coprime a b"
proof (rule coprimeI)
  fix e assume "e dvd a" "e dvd b"
  then have "e dvd a * d - c * b" by simp
  then have "e dvd \<bar>a * d - c * b\<bar>" by simp
  with assms show "is_unit e" by simp
qed

lemma exit_facts:
  assumes inv: "cf_inv M N D p0 q0 p1 q1 n d" and d: "0 < d"
    and ex: "M < q0 + (n div d) * q1" and M: "1 \<le> M"
  defines "k \<equiv> (M - q0) div q1"
  shows "1 \<le> q1" and "1 \<le> q0 + k * q1" and "q0 + k * q1 \<le> M" and "M < q0 + k * q1 + q1"
    and "N * q1 - p1 * D = (p0 * q1 - p1 * q0) * d"
    and "N * (q0 + k * q1) - (p0 + k * p1) * D = - (p0 * q1 - p1 * q0) * (n - k * d)"
    and "0 < n - k * d"
    and "(p0 + k * p1) * q1 - p1 * (q0 + k * q1) = p0 * q1 - p1 * q0"
proof -
  from inv have N: "p1 * n + p0 * d = N" and D: "q1 * n + q0 * d = D"
    and q0: "0 \<le> q0" "q0 \<le> M" and q1M: "q1 \<le> M"
    and ph: "(q1 = 0 \<and> q0 = 1) \<or> (1 \<le> q1 \<and> d < n)"
    by (simp_all add: cf_inv_def)
  show q1: "1 \<le> q1" using ph ex M by auto
  then have q1p: "0 < q1" by simp
  have e: "q1 * k + (M - q0) mod q1 = M - q0" unfolding k_def by (rule mult_div_mod_eq)
  have m0: "0 \<le> (M - q0) mod q1" and m1: "(M - q0) mod q1 < q1" using q1p by simp_all
  have kq: "k * q1 \<le> M - q0" using e m0 by (simp add: mult.commute)
  show le: "q0 + k * q1 \<le> M" using kq by simp
  show gt: "M < q0 + k * q1 + q1" using e m1 by (simp add: mult.commute)
  show "1 \<le> q0 + k * q1" using gt q1M by linarith
  have "k * q1 < (n div d) * q1" using le ex by linarith
  then have "k < n div d" using q1p by (simp add: mult_less_cancel_right)
  then have "k + 1 \<le> n div d" by simp
  then have "d * (k + 1) \<le> d * (n div d)" using d by (simp add: mult_left_mono)
  moreover have "d * (n div d) + n mod d = n" by (rule mult_div_mod_eq)
  moreover have "0 \<le> n mod d" using d by simp
  ultimately have "d * (k + 1) \<le> n" by linarith
  then have "k * d + d \<le> n" by (simp add: algebra_simps)
  then show "0 < n - k * d" using d by linarith
  show "N * q1 - p1 * D = (p0 * q1 - p1 * q0) * d"
    unfolding N [symmetric] D [symmetric] by (simp add: algebra_simps)
  show "N * (q0 + k * q1) - (p0 + k * p1) * D = - (p0 * q1 - p1 * q0) * (n - k * d)"
    unfolding N [symmetric] D [symmetric] by (simp add: algebra_simps)
  show "(p0 + k * p1) * q1 - p1 * (q0 + k * q1) = p0 * q1 - p1 * q0"
    by (simp add: algebra_simps)
qed


lemma frac_less_iff:
  fixes a b c d :: int
  assumes "0 < b" "0 < d"
  shows "(of_int a / of_int b :: rat) < of_int c / of_int d \<longleftrightarrow> a * d < c * b"
proof -
  have "(of_int a / of_int b :: rat) < of_int c / of_int d
        \<longleftrightarrow> (of_int (a * d) :: rat) < of_int (c * b)"
    using assms by (simp add: field_simps)
  then show ?thesis by (simp only: of_int_less_iff)
qed

lemma denominator_Fract:
  assumes "0 < b" "coprime a b"
  shows "denominator (Rat.Fract a b) = b" and "numerator (Rat.Fract a b) = a"
  using assms by (simp_all add: denominator_def numerator_def quotient_of_Fract Rat.normalize_stable)

lemma limit_denominator_closest:
  assumes M: "1 \<le> M"
  shows "\<exists>r. limit_denominator x M = Inr r \<and> denominator r \<le> M \<and>
           (\<forall>p q. 0 < q \<and> q \<le> M \<longrightarrow> \<bar>r - x\<bar> \<le> \<bar>of_int p / of_int q - x\<bar>)"
proof -
  obtain N D where qx: "quotient_of x = (N, D)" by (cases "quotient_of x")
  have D: "0 < D" and cop: "coprime N D" and x: "x = of_int N / of_int D"
    using qx by (simp_all add: quotient_of_denom_pos quotient_of_coprime quotient_of_div)
  have num: "numerator x = N" and den: "denominator x = D"
    using qx by (simp_all add: numerator_def denominator_def)
  show ?thesis
  proof (cases "D \<le> M")
    case True
    then have "limit_denominator x M = Inr x" using M den by (simp add: limit_denominator_def)
    with True den show ?thesis by simp
  next
    case False
    then have MD: "M < D" by simp
    from loop_post [OF cf_inv_init [OF M D] cop MD M]
    obtain p0 q0 p1 q1 n d where
      loop: "limit_denominator_loop M 0 1 1 0 N D = Inr (p0, q0, p1, q1)"
      and inv: "cf_inv M N D p0 q0 p1 q1 n d" and d: "0 < d"
      and ex: "M < q0 + (n div d) * q1" by blast
    define k where "k = (M - q0) div q1"
    define P where "P = p0 + k * p1"
    define Q where "Q = q0 + k * q1"
    define \<sigma> where "\<sigma> = p0 * q1 - p1 * q0"
    note f = exit_facts [OF inv d ex M, folded k_def, folded P_def Q_def \<sigma>_def]
    have q1: "0 < q1" and Q: "0 < Q" and QM: "Q \<le> M" and MQ: "M < Q + q1" using f by simp_all
    have q1M: "q1 \<le> M" using inv by (simp add: cf_inv_def)
    have sg: "\<bar>\<sigma>\<bar> = 1" using inv by (simp add: cf_inv_def \<sigma>_def)
    have e1: "N * q1 - p1 * D = \<sigma> * d" and e2: "N * Q - P * D = - \<sigma> * (n - k * d)"
      and nk: "0 < n - k * d" and e3: "P * q1 - p1 * Q = \<sigma>" using f by simp_all
    let ?c = "Rat.Fract p1 q1" and ?s = "Rat.Fract P Q"
    have c: "?c = of_int p1 / of_int q1" and s: "?s = of_int P / of_int Q"
      by (simp_all add: Fract_of_int_quotient)
    have "\<bar>p1 * Q - P * q1\<bar> = 1" using e3 sg by simp
    then have cop1: "coprime p1 q1" by (rule coprime_of_det)
    have "\<bar>P * q1 - p1 * Q\<bar> = 1" using e3 sg by simp
    then have copP: "coprime P Q" by (rule coprime_of_det)
    have denc: "denominator ?c = q1" and dens: "denominator ?s = Q"
      using denominator_Fract q1 Q cop1 copP by simp_all
    define r where "r = (if \<bar>?c - x\<bar> \<le> \<bar>?s - x\<bar> then ?c else ?s)"
    have res: "limit_denominator x M = Inr r"
      using M MD q1 Q loop
      by (simp add: limit_denominator_def den num Fraction_def r_def Let_def
          k_def [symmetric] P_def [symmetric] Q_def [symmetric])
    have rden: "denominator r \<le> M" using denc dens q1M QM by (simp add: r_def)
    have rmin: "\<bar>r - x\<bar> = min \<bar>?c - x\<bar> \<bar>?s - x\<bar>" by (simp add: r_def min_def)
    have best: "min \<bar>?c - x\<bar> \<bar>?s - x\<bar> \<le> \<bar>of_int p / of_int q - x\<bar>"
      if q: "0 < q" "q \<le> M" for p q
    proof -
      have qs: "q < q1 + Q" "q < Q + q1" using q MQ by simp_all
      from sg consider "\<sigma> = 1" | "\<sigma> = - 1" by linarith
      then show ?thesis
      proof cases
        case 1
        have "p1 * D < N * q1" using e1 1 d by simp
        then have lo: "?c < x" unfolding c x using frac_less_iff [OF q1 D] by simp
        have "N * Q < P * D" using e2 1 nk by simp
        then have hi: "x < ?s" unfolding s x using frac_less_iff [OF D Q] by simp
        have det: "P * q1 - p1 * Q = 1" using e3 1 by simp
        from bracket_closest [OF q1 Q q(1) det lo [unfolded c] hi [unfolded s] qs(1)]
        show ?thesis unfolding c s .
      next
        case 2
        have "N * q1 < p1 * D" using e1 2 d by simp
        then have hi: "x < ?c" unfolding c x using frac_less_iff [OF D q1] by simp
        have "P * D < N * Q" using e2 2 nk by simp
        then have lo: "?s < x" unfolding s x using frac_less_iff [OF Q D] by simp
        have det: "p1 * Q - P * q1 = 1" using e3 2 by simp
        from bracket_closest [OF Q q1 q(1) det lo [unfolded s] hi [unfolded c] qs(2)]
        show ?thesis unfolding c s by (simp add: min.commute)
      qed
    qed
    show ?thesis using res rden rmin best by auto
  qed
qed

lemma u_rat_returns: "1 \<le> max_den \<Longrightarrow> \<exists>nd. u_rat x max_den = Inr nd"
  using limit_denominator_closest [of max_den x] by (auto simp: u_rat_def)

lemma u_rat_of_int: "1 \<le> max_den \<Longrightarrow> u_rat (of_int i) max_den = Inr (i, 1)"
  by (simp add: u_rat_def limit_denominator_def denominator_def numerator_def)

text \<open>
  C8. For every rational \<open>x\<close> (every finite float is one) and every bound
  \<open>max_den \<ge> 1\<close>, \<^verbatim>\<open>_rat(x, max_den)\<close> raises nothing and returns a pair \<open>(n, d)\<close> in
  lowest terms with \<open>0 < d \<le> max_den\<close> such that no fraction with a denominator between
  1 and \<open>max_den\<close> is closer to \<open>x\<close> than \<open>n / d\<close>. The result is a function of the
  arguments.
\<close>

theorem u_rat_closest:
  assumes M: "1 \<le> max_den"
  shows "\<exists>n d. u_rat x max_den = Inr (n, d) \<and> 0 < d \<and> d \<le> max_den \<and> coprime n d \<and>
           (\<forall>p q. 0 < q \<and> q \<le> max_den \<longrightarrow>
              \<bar>of_int n / of_int d - x\<bar> \<le> \<bar>of_int p / of_int q - x\<bar>)"
proof -
  from limit_denominator_closest [OF M, of x] obtain r where
    r: "limit_denominator x max_den = Inr r" and den: "denominator r \<le> max_den"
    and best: "\<forall>p q. 0 < q \<and> q \<le> max_den \<longrightarrow> \<bar>r - x\<bar> \<le> \<bar>of_int p / of_int q - x\<bar>"
    by blast
  obtain n d where q: "quotient_of r = (n, d)" by (cases "quotient_of r")
  have "u_rat x max_den = Inr (n, d)"
    using r q by (simp add: u_rat_def numerator_def denominator_def)
  moreover have "0 < d" "coprime n d" "r = of_int n / of_int d"
    using q by (simp_all add: quotient_of_denom_pos quotient_of_coprime quotient_of_div)
  moreover have "d \<le> max_den" using den q by (simp add: denominator_def)
  ultimately show ?thesis using best by auto
qed

theorem u_rat_closest_witness:
  "(1::int) \<le> 10 \<and> u_rat (355 / 113) 10 = Inr (22, 7)
   \<and> (0::int) < 3 \<and> (3::int) \<le> 10
   \<and> \<bar>of_int 22 / of_int 7 - (355 / 113 :: rat)\<bar> \<le> \<bar>of_int 19 / of_int 3 - 355 / 113\<bar>"
proof -
  have e: "u_rat (355 / 113) 10 = Inr (22, 7)" by code_simp
  from u_rat_closest [of 10 "355 / 113"] obtain n d where
    nd: "u_rat (355 / 113) 10 = Inr (n, d)"
    and best: "\<forall>p q. 0 < q \<and> q \<le> 10 \<longrightarrow>
                 \<bar>of_int n / of_int d - (355 / 113 :: rat)\<bar> \<le> \<bar>of_int p / of_int q - 355 / 113\<bar>"
    by auto
  from nd e have "n = 22" "d = 7" by simp_all
  with best [rule_format, of 3 19] e show ?thesis by simp
qed


section \<open>Double-precision rounding\<close>

text \<open>
  A rational is a double exactly when rounding leaves it unchanged, and then it is
  \<open>of_int k * pow2 e\<close> for integers with \<open>\<bar>k\<bar> < 2 ^ 53\<close> and \<open>- 1074 \<le> e\<close>. The integer part
  and the fractional part of a non-negative double are doubles, so the subtractions of
  \<^verbatim>\<open>_deg_to_dms\<close> are exact.
\<close>

lemma pow2_powi: "pow2 e = 2 powi e"
  by (simp add: pow2_def power_int_def power_one_over inverse_eq_divide)

lemma pow2_pos: "0 < pow2 e"
  by (simp add: pow2_powi zero_less_power_int)

lemma pow2_add: "pow2 (a + b) = pow2 a * pow2 b"
  by (simp add: pow2_powi power_int_add)

lemma pow2_diff: "pow2 (a - b) = pow2 a / pow2 b"
  by (simp add: pow2_powi power_int_diff)

lemma pow2_mono: "a \<le> b \<Longrightarrow> pow2 a \<le> pow2 b"
  by (simp add: pow2_powi power_int_increasing)

lemma pow2_strict_mono: "a < b \<Longrightarrow> pow2 a < pow2 b"
  by (simp add: pow2_powi power_int_strict_increasing)

lemma pow2_less_cancel: "pow2 a < pow2 b \<Longrightarrow> a < b"
  using pow2_mono [of b a] by (cases "a < b") auto

lemma pow2_nonneg_exp: "0 \<le> e \<Longrightarrow> pow2 e = of_int (2 ^ nat e)"
  by (simp add: pow2_def)

lemma pow2_zero: "pow2 0 = 1"
  by (simp add: pow2_def)

lemma bit_length_bounds:
  "0 < n \<Longrightarrow> 1 \<le> bit_length n \<and> 2 ^ nat (bit_length n - 1) \<le> n \<and> n < 2 ^ nat (bit_length n)"
proof (induction n rule: bit_length.induct)
  case (1 n)
  show ?case
  proof (cases "n = 1")
    case True
    have "bit_length 1 = 1" by (simp add: bit_length.simps)
    with True show ?thesis by simp
  next
    case False
    with "1.prems" have h: "0 < n div 2" by simp
    have nle: "\<not> n \<le> 0" using "1.prems" by simp
    from "1.IH" [OF nle h] have b1: "1 \<le> bit_length (n div 2)"
      and lo: "2 ^ nat (bit_length (n div 2) - 1) \<le> n div 2"
      and hi: "n div 2 < 2 ^ nat (bit_length (n div 2))" by simp_all
    have bl: "bit_length n = 1 + bit_length (n div 2)"
      using nle by (subst bit_length.simps) simp
    have e1: "nat (bit_length n - 1) = Suc (nat (bit_length (n div 2) - 1))"
      using b1 bl by simp
    have e2: "nat (bit_length n) = Suc (nat (bit_length (n div 2)))"
      using b1 bl by simp
    have "2 * (n div 2) \<le> n" "n \<le> 2 * (n div 2) + 1" by simp_all
    with lo hi show ?thesis unfolding e1 e2 using bl b1 by simp
  qed
qed

lemma bit_length_pow2:
  assumes "0 < n"
  shows "pow2 (bit_length n - 1) \<le> of_int n" and "of_int n < pow2 (bit_length n)"
proof -
  from bit_length_bounds [OF assms] have b: "1 \<le> bit_length n"
    and lo: "2 ^ nat (bit_length n - 1) \<le> n" and hi: "n < 2 ^ nat (bit_length n)" by simp_all
  have "(of_int (2 ^ nat (bit_length n - 1)) :: rat) \<le> of_int n" using lo by (simp only: of_int_le_iff)
  then show "pow2 (bit_length n - 1) \<le> of_int n" using b by (simp add: pow2_nonneg_exp)
  have "(of_int n :: rat) < of_int (2 ^ nat (bit_length n))" using hi by (simp only: of_int_less_iff)
  then show "of_int n < pow2 (bit_length n)" using b by (simp add: pow2_nonneg_exp)
qed

lemma ilog2_bounds:
  assumes "x \<noteq> 0"
  shows "pow2 (ilog2 x) \<le> \<bar>x\<bar>" and "\<bar>x\<bar> < pow2 (ilog2 x + 1)"
proof -
  obtain a b where q: "quotient_of \<bar>x\<bar> = (a, b)" by (cases "quotient_of \<bar>x\<bar>")
  have b: "0 < b" and x: "\<bar>x\<bar> = of_int a / of_int b"
    using q by (simp_all add: quotient_of_denom_pos quotient_of_div)
  have "0 < \<bar>x\<bar>" using assms by simp
  then have a: "0 < a" unfolding x using b by (simp add: zero_less_divide_iff)
  define e0 where "e0 = bit_length a - bit_length b"
  note A = bit_length_pow2 [OF a] and B = bit_length_pow2 [OF b]
  have bp: "(0::rat) < of_int b" and ap: "(0::rat) < of_int a" using a b by simp_all
  have "\<bar>x\<bar> < pow2 (bit_length a) / pow2 (bit_length b - 1)"
    unfolding x using A(2) B(1) ap pow2_pos [of "bit_length b - 1"]
    by (intro frac_less) simp_all
  then have up: "\<bar>x\<bar> < pow2 (e0 + 1)"
    by (simp add: e0_def pow2_diff [symmetric] algebra_simps)
  have "pow2 (bit_length a - 1) / pow2 (bit_length b) < \<bar>x\<bar>"
    unfolding x using A(1) B(2) bp pow2_pos [of "bit_length a - 1"]
    by (intro frac_less2) simp_all
  then have lo: "pow2 (e0 - 1) < \<bar>x\<bar>"
    by (simp add: e0_def pow2_diff [symmetric] algebra_simps)
  have il: "ilog2 x = (if pow2 e0 \<le> \<bar>x\<bar> then e0 else e0 - 1)"
    using q by (simp add: ilog2_def Let_def numerator_def denominator_def e0_def)
  show "pow2 (ilog2 x) \<le> \<bar>x\<bar>" using il lo by auto
  show "\<bar>x\<bar> < pow2 (ilog2 x + 1)" using il up by (auto simp: not_le)
qed

lemma ilog2_less: "x \<noteq> 0 \<Longrightarrow> \<bar>x\<bar> < pow2 n \<Longrightarrow> ilog2 x < n"
  using ilog2_bounds(1) [of x] pow2_less_cancel [of "ilog2 x" n] by simp


lemma round_half_even_of_int: "round_half_even (of_int z) = z"
  by (simp add: round_half_even_def)

lemma round_half_even_ge: "of_int n \<le> x \<Longrightarrow> n \<le> round_half_even x"
proof -
  assume "of_int n \<le> x"
  then have "n \<le> \<lfloor>x\<rfloor>" by (simp add: le_floor_iff)
  then show ?thesis by (simp add: round_half_even_def Let_def)
qed

lemma round_half_even_le: "x \<le> of_int n \<Longrightarrow> round_half_even x \<le> n"
proof -
  assume h: "x \<le> of_int n"
  then have f: "\<lfloor>x\<rfloor> \<le> n" by (simp add: floor_le_iff)
  show ?thesis
  proof (cases "x = of_int \<lfloor>x\<rfloor>")
    case True
    then have "round_half_even x = \<lfloor>x\<rfloor>" by (metis round_half_even_of_int)
    with f show ?thesis by simp
  next
    case False
    then have "of_int \<lfloor>x\<rfloor> < x" using of_int_floor_le [of x] by linarith
    with h have "(of_int \<lfloor>x\<rfloor> :: rat) < of_int n" by linarith
    then have "\<lfloor>x\<rfloor> < n" by (simp only: of_int_less_iff)
    then show ?thesis by (simp add: round_half_even_def Let_def)
  qed
qed

lemma round_half_even_nonneg: "0 \<le> x \<Longrightarrow> 0 \<le> round_half_even x"
  using round_half_even_ge [of 0 x] by simp

lemma float_round_zero: "float_round 0 = 0"
  by (simp add: float_round_def)

lemma float_round_nonneg: "0 \<le> y \<Longrightarrow> 0 \<le> float_round y"
  by (simp add: float_round_def Let_def round_half_even_nonneg pow2_pos less_imp_le)

lemma float_round_exact:
  assumes x: "x = of_int k * pow2 e" and e: "- 1074 \<le> e" and k: "\<bar>k\<bar> < 2 ^ 53"
  shows "float_round x = x"
proof (cases "x = 0")
  case True
  then show ?thesis by (simp add: float_round_zero)
next
  case False
  define E where "E = max (ilog2 x - 52) (- 1074)"
  have "(of_int \<bar>k\<bar> :: rat) < of_int (2 ^ 53)" using k by (simp only: of_int_less_iff)
  then have "\<bar>x\<bar> < 2 ^ 53 * pow2 e"
    unfolding x by (simp add: abs_mult pow2_pos less_imp_le)
  also have "\<dots> = pow2 (53 + e)" by (simp add: pow2_add pow2_nonneg_exp)
  finally have "ilog2 x < 53 + e" using ilog2_less [OF False] by simp
  then have Ee: "E \<le> e" using e by (simp add: E_def)
  have "x / pow2 E = of_int k * pow2 (e - E)" unfolding x by (simp add: pow2_diff)
  also have "\<dots> = of_int (k * 2 ^ nat (e - E))" using Ee by (simp add: pow2_nonneg_exp)
  finally have q: "x / pow2 E = of_int (k * 2 ^ nat (e - E))" .
  have "float_round x = of_int (round_half_even (x / pow2 E)) * pow2 E"
    using False by (simp add: float_round_def Let_def E_def)
  also have "\<dots> = x / pow2 E * pow2 E" unfolding q round_half_even_of_int ..
  also have "\<dots> = x" using pow2_pos [of E] by simp
  finally show ?thesis .
qed

lemma float_round_fixed:
  assumes "float_round x = x"
  shows "\<exists>k e. x = of_int k * pow2 e \<and> - 1074 \<le> e \<and> \<bar>k\<bar> < 2 ^ 53"
proof (cases "x = 0")
  case True
  then have "x = of_int 0 * pow2 0 \<and> - 1074 \<le> (0::int) \<and> \<bar>0::int\<bar> < 2 ^ 53" by simp
  then show ?thesis by blast
next
  case False
  define E where "E = max (ilog2 x - 52) (- 1074)"
  define r where "r = round_half_even (x / pow2 E)"
  have fr: "float_round x = of_int r * pow2 E"
    using False by (simp add: float_round_def Let_def E_def r_def)
  with assms have x: "x = of_int r * pow2 E" by simp
  have "\<bar>x\<bar> < pow2 (ilog2 x + 1)" using ilog2_bounds(2) [OF False] .
  also have "\<dots> \<le> pow2 (53 + E)" by (intro pow2_mono) (simp add: E_def)
  also have "\<dots> = 2 ^ 53 * pow2 E" by (simp add: pow2_add pow2_nonneg_exp)
  finally have "\<bar>of_int r * pow2 E\<bar> < 2 ^ 53 * pow2 E" using x by simp
  then have "(of_int \<bar>r\<bar> :: rat) * pow2 E < of_int (2 ^ 53) * pow2 E"
    by (simp add: abs_mult pow2_pos less_imp_le)
  then have "(of_int \<bar>r\<bar> :: rat) < of_int (2 ^ 53)"
    using pow2_pos [of E] by (simp only: mult_less_cancel_right_pos)
  then have "\<bar>r\<bar> < 2 ^ 53" by (simp only: of_int_less_iff)
  moreover have "- 1074 \<le> E" by (simp add: E_def)
  ultimately show ?thesis using x by blast
qed


lemma float_round_idem: "float_round (float_round y) = float_round y"
proof (cases "y = 0")
  case True
  then show ?thesis by (simp add: float_round_zero)
next
  case False
  define E where "E = max (ilog2 y - 52) (- 1074)"
  define r where "r = round_half_even (y / pow2 E)"
  have fr: "float_round y = of_int r * pow2 E"
    using False by (simp add: float_round_def Let_def E_def r_def)
  have E: "- 1074 \<le> E" by (simp add: E_def)
  have "\<bar>y\<bar> < pow2 (ilog2 y + 1)" using ilog2_bounds(2) [OF False] .
  also have "\<dots> \<le> pow2 (53 + E)" by (intro pow2_mono) (simp add: E_def)
  also have "\<dots> = 2 ^ 53 * pow2 E" by (simp add: pow2_add pow2_nonneg_exp)
  finally have "\<bar>y\<bar> / pow2 E < 2 ^ 53" using pow2_pos [of E] by (simp add: field_simps)
  then have b: "\<bar>y / pow2 E\<bar> < of_int (2 ^ 53)" using pow2_pos [of E] by (simp add: abs_divide)
  from b have b1: "y / pow2 E \<le> of_int (2 ^ 53)" and b2: "of_int (- (2 ^ 53)) \<le> y / pow2 E"
    by linarith+
  have "r \<le> 2 ^ 53" unfolding r_def using b1 by (rule round_half_even_le)
  moreover have "- (2 ^ 53) \<le> r" unfolding r_def using b2 by (rule round_half_even_ge)
  ultimately consider "\<bar>r\<bar> < 2 ^ 53" | "r = 2 ^ 53" | "r = - (2 ^ 53)" by linarith
  then show ?thesis
  proof cases
    case 1
    show ?thesis unfolding fr by (rule float_round_exact [OF refl E 1])
  next
    case 2
    have "of_int r * pow2 E = of_int (2 ^ 52) * pow2 (E + 1)"
      unfolding 2 by (simp add: pow2_add pow2_nonneg_exp)
    moreover have "- 1074 \<le> E + 1" using E by simp
    moreover have "\<bar>2 ^ 52 :: int\<bar> < 2 ^ 53" by simp
    ultimately show ?thesis unfolding fr by (intro float_round_exact)
  next
    case 3
    have "of_int r * pow2 E = of_int (- (2 ^ 52)) * pow2 (E + 1)"
      unfolding 3 by (simp add: pow2_add pow2_nonneg_exp)
    moreover have "- 1074 \<le> E + 1" using E by simp
    moreover have "\<bar>- (2 ^ 52) :: int\<bar> < 2 ^ 53" by simp
    ultimately show ?thesis unfolding fr by (intro float_round_exact)
  qed
qed

lemma float_round_abs:
  assumes "float_round x = x"
  shows "float_round \<bar>x\<bar> = \<bar>x\<bar>"
proof -
  from float_round_fixed [OF assms] obtain k e where
    x: "x = of_int k * pow2 e" and e: "- 1074 \<le> e" and k: "\<bar>k\<bar> < 2 ^ 53" by blast
  have "\<bar>x\<bar> = of_int \<bar>k\<bar> * pow2 e" unfolding x by (simp add: abs_mult pow2_pos less_imp_le)
  moreover have "\<bar>\<bar>k\<bar>\<bar> < 2 ^ 53" using k by simp
  ultimately show ?thesis using e by (intro float_round_exact)
qed

lemma float_round_floor_frac:
  assumes fx: "float_round x = x" and x0: "0 \<le> x"
  shows "float_round (of_int \<lfloor>x\<rfloor>) = of_int \<lfloor>x\<rfloor>"
    and "float_round (x - of_int \<lfloor>x\<rfloor>) = x - of_int \<lfloor>x\<rfloor>"
proof -
  from float_round_fixed [OF fx] obtain k e where
    x: "x = of_int k * pow2 e" and e: "- 1074 \<le> e" and k: "\<bar>k\<bar> < 2 ^ 53" by blast
  have both: "float_round (of_int \<lfloor>x\<rfloor>) = of_int \<lfloor>x\<rfloor> \<and>
              float_round (x - of_int \<lfloor>x\<rfloor>) = x - of_int \<lfloor>x\<rfloor>"
  proof (cases "0 \<le> e")
    case True
    then have "x = of_int (k * 2 ^ nat e)" unfolding x by (simp add: pow2_nonneg_exp)
    then have fl: "of_int \<lfloor>x\<rfloor> = x" by (metis floor_of_int)
    show ?thesis unfolding fl using fx by (simp add: float_round_zero)
  next
    case False
    then have e1: "e \<le> - 1" by simp
    have p1: "pow2 e < 1" using pow2_strict_mono [of e 0] False by (simp add: pow2_zero)
    have "(of_int \<bar>k\<bar> :: rat) < of_int (2 ^ 53)" using k by (simp only: of_int_less_iff)
    then have kk: "(of_int \<bar>k\<bar> :: rat) < 2 ^ 53" by simp
    have "\<bar>x\<bar> = of_int \<bar>k\<bar> * pow2 e" unfolding x by (simp add: abs_mult pow2_pos less_imp_le)
    also have "\<dots> \<le> of_int \<bar>k\<bar> * 1" using p1 by (intro mult_left_mono) simp_all
    finally have xb: "x < 2 ^ 53" using kk x0 by simp
    have f0: "0 \<le> \<lfloor>x\<rfloor>" using x0 by simp
    have "(of_int \<lfloor>x\<rfloor> :: rat) < of_int (2 ^ 53)"
      using of_int_floor_le [of x] xb by simp
    then have fb: "\<lfloor>x\<rfloor> < 2 ^ 53" by (simp only: of_int_less_iff)
    have 1: "float_round (of_int \<lfloor>x\<rfloor>) = of_int \<lfloor>x\<rfloor>"
      using f0 fb by (intro float_round_exact [of _ "\<lfloor>x\<rfloor>" 0]) (simp_all add: pow2_zero)
    define j where "j = k - \<lfloor>x\<rfloor> * 2 ^ nat (- e)"
    have pe: "pow2 e * of_int (2 ^ nat (- e)) = 1"
      using pow2_add [of e "- e"] e1 by (simp add: pow2_nonneg_exp pow2_zero)
    have "of_int j * pow2 e = of_int k * pow2 e - of_int \<lfloor>x\<rfloor> * (pow2 e * of_int (2 ^ nat (- e)))"
      by (simp add: j_def algebra_simps)
    then have fj: "x - of_int \<lfloor>x\<rfloor> = of_int j * pow2 e" unfolding pe x by simp
    have "0 \<le> x - of_int \<lfloor>x\<rfloor>" using of_int_floor_le [of x] by simp
    then have "0 \<le> of_int j * pow2 e" using fj by simp
    then have "(0::rat) \<le> of_int j" using pow2_pos [of e] by (simp add: zero_le_mult_iff)
    then have j0: "0 \<le> j" by simp
    have "0 \<le> \<lfloor>x\<rfloor> * 2 ^ nat (- e)" using f0 by simp
    then have "j \<le> k" by (simp add: j_def)
    then have "\<bar>j\<bar> < 2 ^ 53" using j0 k by simp
    then have 2: "float_round (x - of_int \<lfloor>x\<rfloor>) = x - of_int \<lfloor>x\<rfloor>"
      using e fj by (intro float_round_exact [of _ j e])
    from 1 2 show ?thesis ..
  qed
  from both show "float_round (of_int \<lfloor>x\<rfloor>) = of_int \<lfloor>x\<rfloor>" ..
  from both show "float_round (x - of_int \<lfloor>x\<rfloor>) = x - of_int \<lfloor>x\<rfloor>" ..
qed


section \<open>Properties of \<^verbatim>\<open>_deg_to_dms\<close>\<close>

lemma int_of_float_nonneg: "0 \<le> x \<Longrightarrow> int_of_float x = \<lfloor>x\<rfloor>"
  by (simp add: int_of_float_def)

lemma u_deg_to_dms_shape:
  "\<exists>sn sd. u_deg_to_dms x =
       Inr ((\<lfloor>\<bar>x\<bar>\<rfloor>, 1), (int_of_float (dms_m_float x), 1), (sn, sd)) \<and>
     u_rat (dms_s_float x) 1000000 = Inr (sn, sd)"
proof -
  obtain sn sd where s: "u_rat (dms_s_float x) 1000000 = Inr (sn, sd)"
    using u_rat_returns [of 1000000 "dms_s_float x"] by auto
  have "u_deg_to_dms x = Inr ((\<lfloor>\<bar>x\<bar>\<rfloor>, 1), (int_of_float (dms_m_float x), 1), (sn, sd))"
    using s
    by (simp add: u_deg_to_dms_def Let_def u_rat_of_int int_of_float_nonneg
        dms_m_float_def dms_s_float_def)
  with s show ?thesis by blast
qed

lemma u_deg_to_dms_returns: "\<exists>r. u_deg_to_dms x = Inr r"
  using u_deg_to_dms_shape [of x] by blast

text \<open>
  Rounding does not cross a whole number: below \<open>2 ^ 53\<close> the integers are doubles and
  lie on the grid the rounding uses.
\<close>

lemma float_round_int_bounds:
  assumes y: "\<bar>y\<bar> < 2 ^ 53"
  shows "of_int n \<le> y \<Longrightarrow> of_int n \<le> float_round y"
    and "y \<le> of_int n \<Longrightarrow> float_round y \<le> of_int n"
proof -
  have both: "(of_int n \<le> y \<longrightarrow> of_int n \<le> float_round y) \<and>
              (y \<le> of_int n \<longrightarrow> float_round y \<le> of_int n)"
  proof (cases "y = 0")
    case True
    then show ?thesis by (simp add: float_round_zero)
  next
    case False
    define E where "E = max (ilog2 y - 52) (- 1074)"
    have "\<bar>y\<bar> < pow2 53" using y by (simp add: pow2_nonneg_exp)
    then have "ilog2 y < 53" using ilog2_less [OF False] by simp
    then have E: "E \<le> 0" by (simp add: E_def)
    have fr: "float_round y = of_int (round_half_even (y / pow2 E)) * pow2 E"
      using False by (simp add: float_round_def Let_def E_def)
    have "pow2 (- E) * pow2 E = 1" using pow2_add [of "- E" E] by (simp add: pow2_zero)
    then have inv: "of_int (2 ^ nat (- E)) * pow2 E = 1" using E by (simp add: pow2_nonneg_exp)
    have n: "of_int (n * 2 ^ nat (- E)) * pow2 E = of_int n"
      using inv by (simp add: mult.assoc)
    have q: "of_int n / pow2 E = of_int (n * 2 ^ nat (- E))"
      using n pow2_pos [of E] by (simp add: field_simps)
    have ge: "of_int n \<le> float_round y" if "of_int n \<le> y"
    proof -
      from that have "of_int n / pow2 E \<le> y / pow2 E"
        using pow2_pos [of E] by (simp add: divide_right_mono less_imp_le)
      then have "n * 2 ^ nat (- E) \<le> round_half_even (y / pow2 E)"
        unfolding q by (rule round_half_even_ge)
      then have "(of_int (n * 2 ^ nat (- E)) :: rat) \<le> of_int (round_half_even (y / pow2 E))"
        by (simp only: of_int_le_iff)
      then have "of_int (n * 2 ^ nat (- E)) * pow2 E
                 \<le> of_int (round_half_even (y / pow2 E)) * pow2 E"
        using pow2_pos [of E] by (simp add: mult_right_mono less_imp_le)
      then show ?thesis unfolding n fr .
    qed
    have le: "float_round y \<le> of_int n" if "y \<le> of_int n"
    proof -
      from that have "y / pow2 E \<le> of_int n / pow2 E"
        using pow2_pos [of E] by (simp add: divide_right_mono less_imp_le)
      then have "round_half_even (y / pow2 E) \<le> n * 2 ^ nat (- E)"
        unfolding q by (rule round_half_even_le)
      then have "(of_int (round_half_even (y / pow2 E)) :: rat) \<le> of_int (n * 2 ^ nat (- E))"
        by (simp only: of_int_le_iff)
      then have "of_int (round_half_even (y / pow2 E)) * pow2 E
                 \<le> of_int (n * 2 ^ nat (- E)) * pow2 E"
        using pow2_pos [of E] by (simp add: mult_right_mono less_imp_le)
      then show ?thesis unfolding n fr .
    qed
    from ge le show ?thesis by blast
  qed
  from both show "of_int n \<le> y \<Longrightarrow> of_int n \<le> float_round y" by blast
  from both show "y \<le> of_int n \<Longrightarrow> float_round y \<le> of_int n" by blast
qed

lemma frac_times_60_bounds: "0 \<le> frac_times_60 y" "frac_times_60 y < 60"
proof -
  have "of_int \<lfloor>y\<rfloor> \<le> y" "y < of_int \<lfloor>y\<rfloor> + 1" by linarith+
  then show "0 \<le> frac_times_60 y" "frac_times_60 y < 60"
    by (simp_all add: frac_times_60_def)
qed

lemma floor_float_round_frac_times_60:
  "\<lfloor>frac_times_60 y\<rfloor> \<le> \<lfloor>float_round (frac_times_60 y)\<rfloor>"
  "\<lfloor>float_round (frac_times_60 y)\<rfloor> \<le> \<lfloor>frac_times_60 y\<rfloor> + 1"
proof -
  let ?z = "frac_times_60 y"
  have z: "\<bar>?z\<bar> < 2 ^ 53" using frac_times_60_bounds [of y] by simp
  have "of_int \<lfloor>?z\<rfloor> \<le> ?z" by simp
  then have "of_int \<lfloor>?z\<rfloor> \<le> float_round ?z" by (rule float_round_int_bounds(1) [OF z])
  then show "\<lfloor>?z\<rfloor> \<le> \<lfloor>float_round ?z\<rfloor>" by (simp add: le_floor_iff)
  have "?z \<le> of_int (\<lfloor>?z\<rfloor> + 1)" by simp linarith
  then have "float_round ?z \<le> of_int (\<lfloor>?z\<rfloor> + 1)" by (rule float_round_int_bounds(2) [OF z])
  then show "\<lfloor>float_round ?z\<rfloor> \<le> \<lfloor>?z\<rfloor> + 1" by (simp add: floor_le_iff)
qed

text \<open>
  For a double the subtractions of \<^verbatim>\<open>_deg_to_dms\<close> are exact, so each of its two floats
  is one product of \<open>frac_times_60\<close>, rounded once.
\<close>

lemma dms_floats_of_double:
  assumes fx: "float_round x = x"
  shows "dms_m_float x = float_round (frac_times_60 \<bar>x\<bar>)"
    and "int_of_float (dms_m_float x) = \<lfloor>float_round (frac_times_60 \<bar>x\<bar>)\<rfloor>"
    and "dms_s_float x = float_round (frac_times_60 (float_round (frac_times_60 \<bar>x\<bar>)))"
proof -
  have dd: "float_round \<bar>x\<bar> = \<bar>x\<bar>" using fx by (rule float_round_abs)
  have dd0: "0 \<le> \<bar>x\<bar>" by simp
  note d = float_round_floor_frac [OF dd dd0]
  show m: "dms_m_float x = float_round (frac_times_60 \<bar>x\<bar>)"
    by (simp add: dms_m_float_def frac_times_60_def float_sub_def float_mul_def d)
  have m0: "0 \<le> float_round (frac_times_60 \<bar>x\<bar>)"
    using frac_times_60_bounds(1) by (rule float_round_nonneg)
  have mf: "float_round (float_round (frac_times_60 \<bar>x\<bar>)) = float_round (frac_times_60 \<bar>x\<bar>)"
    by (rule float_round_idem)
  show "int_of_float (dms_m_float x) = \<lfloor>float_round (frac_times_60 \<bar>x\<bar>)\<rfloor>"
    using m m0 by (simp add: int_of_float_nonneg)
  note e = float_round_floor_frac [OF mf m0]
  let ?F = "float_round (frac_times_60 \<bar>x\<bar>)"
  have "dms_s_float x = float_round (float_round (?F - float_round (of_int \<lfloor>?F\<rfloor>)) * 60)"
    unfolding dms_s_float_def float_sub_def float_mul_def m int_of_float_nonneg [OF m0] ..
  also have "\<dots> = float_round ((?F - of_int \<lfloor>?F\<rfloor>) * 60)"
    unfolding e(1) e(2) ..
  also have "\<dots> = float_round (frac_times_60 ?F)"
    by (simp only: frac_times_60_def [of ?F])
  finally show "dms_s_float x = float_round (frac_times_60 ?F)" .
qed

lemma u_deg_to_dms_zero: "u_deg_to_dms 0 = Inr ((0, 1), (0, 1), (0, 1))"
  by code_simp

lemma u_deg_to_dms_sydney:
  "u_deg_to_dms (float_round (- 33865 / 1000)) = Inr ((33, 1), (51, 1), (54, 1))"
  by code_simp

text \<open>
  C7, as stated, fails. The float written \<^verbatim>\<open>0.3\<close> is the rational
  \<open>5404319552844595 / 2 ^ 54\<close>, a little below three tenths. Its fractional part times 60
  is a little below 18, so the whole minutes of the formula
  \<open>\<lfloor>(\<bar>x\<bar> - \<lfloor>\<bar>x\<bar>\<rfloor>) * 60\<rfloor>\<close> are 17 (with nearly 60 seconds left). The code multiplies in
  double precision, the product is the float 18.0, and it returns 18 minutes and 0
  seconds.
\<close>

theorem u_deg_to_dms_counterexample:
  "float_round (5404319552844595 / 18014398509481984)
     = 5404319552844595 / 18014398509481984
   \<and> \<lfloor>(\<bar>5404319552844595 / 18014398509481984 :: rat\<bar>
        - of_int \<lfloor>\<bar>5404319552844595 / 18014398509481984 :: rat\<bar>\<rfloor>) * 60\<rfloor> = 17
   \<and> u_deg_to_dms (5404319552844595 / 18014398509481984) = Inr ((0, 1), (18, 1), (0, 1))"
  by code_simp

text \<open>
  C7, amended. For every finite float \<open>x\<close> (a rational that rounding leaves unchanged),
  \<^verbatim>\<open>_deg_to_dms(x)\<close> raises nothing and returns three pairs. The first is the whole
  degrees \<open>\<lfloor>\<bar>x\<bar>\<rfloor>\<close> over 1. The second is, over 1, the integer part of the product
  \<open>(\<bar>x\<bar> - \<lfloor>\<bar>x\<bar>\<rfloor>) * 60\<close> rounded to a double: the whole minutes of the exact product, or
  one more where the product rounds up to a whole number. The third encodes the seconds,
  which are the fractional part of that double times 60, rounded to a double: it is a
  fraction with a denominator of at most 1000000 that is as close to them as any such
  fraction. \<^verbatim>\<open>_deg_to_dms(0.0)\<close> is 0/1, 0/1, 0/1; \<^verbatim>\<open>_deg_to_dms(-33.865)\<close> is 33/1,
  51/1, 54/1, the seconds before encoding being within a millionth of 54.
\<close>

theorem u_deg_to_dms_decomposition:
  "(float_round x = x \<longrightarrow>
      (\<exists>sn sd.
         u_deg_to_dms x =
           Inr ((\<lfloor>\<bar>x\<bar>\<rfloor>, 1), (\<lfloor>float_round (frac_times_60 \<bar>x\<bar>)\<rfloor>, 1), (sn, sd)) \<and>
         \<lfloor>frac_times_60 \<bar>x\<bar>\<rfloor> \<le> \<lfloor>float_round (frac_times_60 \<bar>x\<bar>)\<rfloor> \<and>
         \<lfloor>float_round (frac_times_60 \<bar>x\<bar>)\<rfloor> \<le> \<lfloor>frac_times_60 \<bar>x\<bar>\<rfloor> + 1 \<and>
         0 < sd \<and> sd \<le> 1000000 \<and>
         (\<forall>p q. 0 < q \<and> q \<le> 1000000 \<longrightarrow>
            \<bar>of_int sn / of_int sd
               - float_round (frac_times_60 (float_round (frac_times_60 \<bar>x\<bar>)))\<bar>
            \<le> \<bar>of_int p / of_int q
               - float_round (frac_times_60 (float_round (frac_times_60 \<bar>x\<bar>)))\<bar>)))
   \<and> u_deg_to_dms 0 = Inr ((0, 1), (0, 1), (0, 1))
   \<and> u_deg_to_dms (float_round (- 33865 / 1000)) = Inr ((33, 1), (51, 1), (54, 1))
   \<and> \<bar>float_round (frac_times_60 (float_round (frac_times_60 \<bar>float_round (- 33865 / 1000)\<bar>)))
        - 54\<bar> < 1 / 1000000"
proof -
  define s where "s = float_round (frac_times_60 (float_round (frac_times_60 \<bar>x\<bar>)))"
  have 1: "\<exists>sn sd.
         u_deg_to_dms x =
           Inr ((\<lfloor>\<bar>x\<bar>\<rfloor>, 1), (\<lfloor>float_round (frac_times_60 \<bar>x\<bar>)\<rfloor>, 1), (sn, sd)) \<and>
         \<lfloor>frac_times_60 \<bar>x\<bar>\<rfloor> \<le> \<lfloor>float_round (frac_times_60 \<bar>x\<bar>)\<rfloor> \<and>
         \<lfloor>float_round (frac_times_60 \<bar>x\<bar>)\<rfloor> \<le> \<lfloor>frac_times_60 \<bar>x\<bar>\<rfloor> + 1 \<and>
         0 < sd \<and> sd \<le> 1000000 \<and>
         (\<forall>p q. 0 < q \<and> q \<le> 1000000 \<longrightarrow>
            \<bar>of_int sn / of_int sd - s\<bar> \<le> \<bar>of_int p / of_int q - s\<bar>)"
    if fx: "float_round x = x"
  proof -
    note f = dms_floats_of_double [OF fx]
    obtain sn sd where
      d: "u_deg_to_dms x =
            Inr ((\<lfloor>\<bar>x\<bar>\<rfloor>, 1), (\<lfloor>float_round (frac_times_60 \<bar>x\<bar>)\<rfloor>, 1), (sn, sd))"
      and u: "u_rat s 1000000 = Inr (sn, sd)"
      using u_deg_to_dms_shape [of x] unfolding f(2) f(3) s_def by blast
    obtain r where r: "limit_denominator s 1000000 = Inr r"
      and den: "denominator r \<le> 1000000"
      and best: "\<forall>p q. 0 < q \<and> q \<le> 1000000 \<longrightarrow> \<bar>r - s\<bar> \<le> \<bar>of_int p / of_int q - s\<bar>"
      using limit_denominator_closest [of 1000000 s] by auto
    have q: "quotient_of r = (sn, sd)"
      using u r by (simp add: u_rat_def numerator_def denominator_def)
    have "0 < sd" "r = of_int sn / of_int sd"
      using q by (simp_all add: quotient_of_denom_pos quotient_of_div)
    moreover have "sd \<le> 1000000" using den q by (simp add: denominator_def)
    ultimately show ?thesis
      using d best floor_float_round_frac_times_60 [of "\<bar>x\<bar>"] by auto
  qed
  have 2: "\<bar>float_round (frac_times_60 (float_round (frac_times_60 \<bar>float_round (- 33865 / 1000)\<bar>)))
        - 54\<bar> < 1 / 1000000"
    by code_simp
  show ?thesis using 1 2 u_deg_to_dms_zero u_deg_to_dms_sydney unfolding s_def by blast
qed

theorem u_deg_to_dms_decomposition_witness:
  "float_round (float_round (- 33865 / 1000)) = float_round (- 33865 / 1000)
   \<and> u_deg_to_dms (float_round (- 33865 / 1000)) = Inr ((33, 1), (51, 1), (54, 1))
   \<and> \<lfloor>\<bar>float_round (- 33865 / 1000)\<bar>\<rfloor> = 33
   \<and> \<lfloor>float_round (frac_times_60 \<bar>float_round (- 33865 / 1000)\<bar>)\<rfloor> = 51
   \<and> \<lfloor>frac_times_60 \<bar>float_round (- 33865 / 1000)\<bar>\<rfloor> \<le> 51
   \<and> (0::int) < 2 \<and> (2::int) \<le> 1000000
   \<and> \<bar>of_int 54 / of_int 1
        - float_round (frac_times_60 (float_round (frac_times_60 \<bar>float_round (- 33865 / 1000)\<bar>)))\<bar>
       \<le> \<bar>of_int 107 / of_int 2
        - float_round (frac_times_60 (float_round (frac_times_60 \<bar>float_round (- 33865 / 1000)\<bar>)))\<bar>"
proof -
  define X :: rat where "X = float_round (- 33865 / 1000)"
  have fx: "float_round X = X" unfolding X_def by (rule float_round_idem)
  from u_deg_to_dms_decomposition [of X] fx
  obtain sn sd where
    d: "u_deg_to_dms X =
          Inr ((\<lfloor>\<bar>X\<bar>\<rfloor>, 1), (\<lfloor>float_round (frac_times_60 \<bar>X\<bar>)\<rfloor>, 1), (sn, sd))"
    and lo: "\<lfloor>frac_times_60 \<bar>X\<bar>\<rfloor> \<le> \<lfloor>float_round (frac_times_60 \<bar>X\<bar>)\<rfloor>"
    and best: "\<forall>p q. 0 < q \<and> q \<le> 1000000 \<longrightarrow>
                 \<bar>of_int sn / of_int sd
                    - float_round (frac_times_60 (float_round (frac_times_60 \<bar>X\<bar>)))\<bar>
                 \<le> \<bar>of_int p / of_int q
                    - float_round (frac_times_60 (float_round (frac_times_60 \<bar>X\<bar>)))\<bar>"
    by blast
  have z: "u_deg_to_dms X = Inr ((33, 1), (51, 1), (54, 1))"
    unfolding X_def by (rule u_deg_to_dms_sydney)
  from d z have v: "\<lfloor>\<bar>X\<bar>\<rfloor> = 33" "\<lfloor>float_round (frac_times_60 \<bar>X\<bar>)\<rfloor> = 51" "sn = 54" "sd = 1"
    by simp_all
  have c: "(0::int) < 2" "(2::int) \<le> 1000000" by simp_all
  from c have c': "(0::int) < 2 \<and> (2::int) \<le> 1000000" by simp
  note b = best [rule_format, of 2 107, OF c', unfolded v]
  note lo' = lo [unfolded v]
  from fx z v(1) v(2) lo' c b show ?thesis unfolding X_def by blast
qed


section \<open>Properties of \<^verbatim>\<open>make_exif\<close>\<close>

lemma ifd_GPS_base_exif: "ifd_GPS (base_exif ts) = []"
  by (simp add: base_exif_def Let_def set_0th_def set_Exif_def)

lemma ifd_0th_base_exif:
  "ifd_0th (base_exif ts) =
     [(DateTime, Str (strftime_exif ts)), (Make, Str ''Raspberry Pi''),
      (Model, Str ''Camera Module 3''), (Software, Str ''OpenSenseCam Script'')]"
  by (simp add: base_exif_def Let_def set_0th_def set_Exif_def)

lemma make_exif_no_position:
  "EXIF_OK w \<Longrightarrow> \<not> GPS_AVAILABLE w \<or> latitude (gps w) = None \<Longrightarrow>
   make_exif w ts fix = Inr (base_exif ts)"
  by (auto simp: make_exif_def Let_def)

lemma make_exif_positioned_eq:
  assumes ok: "EXIF_OK w" "GPS_AVAILABLE w"
    and lat: "latitude (gps w) = Some lat" and lon: "longitude (gps w) = Some lon"
    and t: "timestamp_utc (gps w) = Some t"
    and 1: "u_deg_to_dms lat = Inr lat_dms" and 2: "u_deg_to_dms lon = Inr lon_dms"
  shows "make_exif w ts fix =
           Inr ((base_exif ts)\<lparr>ifd_GPS :=
              [(GPSLatitudeRef, Str (if 0 \<le> lat then ''N'' else ''S'')),
               (GPSLatitude, Rational3 lat_dms),
               (GPSLongitudeRef, Str (if 0 \<le> lon then ''E'' else ''W'')),
               (GPSLongitude, Rational3 lon_dms)]
              @ altitude_part (altitude_m (gps w))
              @ [(GPSDateStamp, Str (strftime_date (utc_now w))),
                 (GPSTimeStamp, Rational3 ((tm_hour t, 1), (tm_min t, 1), (tm_sec t, 1)))]\<rparr>)"
proof (cases "altitude_m (gps w)")
  case None
  then show ?thesis
    using ok lat lon t 1 2
    by (simp add: make_exif_def Let_def altitude_tags_def timestamp_tags_def set_GPS_def
        altitude_part_def u_rat_of_int ifd_GPS_base_exif)
next
  case (Some a)
  obtain r where r: "u_rat \<bar>a\<bar> 1000 = Inr r" using u_rat_returns [of 1000 "\<bar>a\<bar>"] by auto
  show ?thesis
    using ok lat lon t 1 2 Some r
    by (simp add: make_exif_def Let_def altitude_tags_def timestamp_tags_def set_GPS_def
        altitude_part_def u_rat_of_int ifd_GPS_base_exif)
qed

lemma map_of_altitude_part:
  "k \<noteq> GPSAltitudeRef \<Longrightarrow> k \<noteq> GPSAltitude \<Longrightarrow> map_of (altitude_part alt) k = None"
  by (simp add: altitude_part_def split: option.split sum.split)


lemma u_deg_to_dms_ex_lat: "u_deg_to_dms (103 / 2) = Inr ((51, 1), (30, 1), (0, 1))"
  by code_simp

lemma u_deg_to_dms_ex_lon: "u_deg_to_dms (- 1 / 8) = Inr ((0, 1), (7, 1), (30, 1))"
  by code_simp

lemma u_rat_ex_alt: "u_rat \<bar>35\<bar> 1000 = Inr (35, 1)"
  by code_simp

lemma u_deg_to_dms_syd_lat: "u_deg_to_dms (- 271 / 8) = Inr ((33, 1), (52, 1), (30, 1))"
  by code_simp

lemma u_deg_to_dms_syd_lon: "u_deg_to_dms (605 / 4) = Inr ((151, 1), (15, 1), (0, 1))"
  by code_simp

lemma strftime_date_ex: "strftime_date (utc_now ex_world) = ''2024:01:02''"
  by (simp add: ex_world_def strftime_date_def pad2_def pad4_def digit_def)

lemma altitude_part_ex:
  "altitude_part (Some 35) = [(GPSAltitudeRef, IntVal 0), (GPSAltitude, Rational (35, 1))]"
  using u_rat_ex_alt by (simp add: altitude_part_def)

lemma make_exif_ex_world:
  "make_exif ex_world ts fix =
     Inr ((base_exif ts)\<lparr>ifd_GPS :=
        [(GPSLatitudeRef, Str ''N''), (GPSLatitude, Rational3 ((51, 1), (30, 1), (0, 1))),
         (GPSLongitudeRef, Str ''W''), (GPSLongitude, Rational3 ((0, 1), (7, 1), (30, 1))),
         (GPSAltitudeRef, IntVal 0), (GPSAltitude, Rational (35, 1)),
         (GPSDateStamp, Str ''2024:01:02''),
         (GPSTimeStamp, Rational3 ((23, 1), (59, 1), (58, 1)))]\<rparr>)"
proof -
  have "make_exif ex_world ts fix =
     Inr ((base_exif ts)\<lparr>ifd_GPS :=
        [(GPSLatitudeRef, Str (if 0 \<le> (103 / 2 :: rat) then ''N'' else ''S'')),
         (GPSLatitude, Rational3 ((51, 1), (30, 1), (0, 1))),
         (GPSLongitudeRef, Str (if 0 \<le> (- 1 / 8 :: rat) then ''E'' else ''W'')),
         (GPSLongitude, Rational3 ((0, 1), (7, 1), (30, 1)))]
        @ altitude_part (altitude_m (gps ex_world))
        @ [(GPSDateStamp, Str (strftime_date (utc_now ex_world))),
           (GPSTimeStamp, Rational3 ((23, 1), (59, 1), (58, 1)))]\<rparr>)"
    using make_exif_positioned_eq
      [of ex_world "103 / 2" "- 1 / 8"
        "\<lparr>tm_year = 2024, tm_mon = 1, tm_mday = 1, tm_hour = 23, tm_min = 59, tm_sec = 58\<rparr>"
        "((51, 1), (30, 1), (0, 1))" "((0, 1), (7, 1), (30, 1))" ts "fix"]
      u_deg_to_dms_ex_lat u_deg_to_dms_ex_lon
    by (simp add: ex_world_def ex_receiver_def)
  moreover have "altitude_m (gps ex_world) = Some 35"
    by (simp add: ex_world_def ex_receiver_def)
  ultimately show ?thesis
    by (simp add: altitude_part_ex strftime_date_ex)
qed

lemma make_exif_syd_world:
  "make_exif (ex_world\<lparr>gps := syd_receiver\<rparr>) ts fix =
     Inr ((base_exif ts)\<lparr>ifd_GPS :=
        [(GPSLatitudeRef, Str ''S''), (GPSLatitude, Rational3 ((33, 1), (52, 1), (30, 1))),
         (GPSLongitudeRef, Str ''E''), (GPSLongitude, Rational3 ((151, 1), (15, 1), (0, 1))),
         (GPSDateStamp, Str ''2024:01:02''),
         (GPSTimeStamp, Rational3 ((23, 1), (59, 1), (58, 1)))]\<rparr>)"
proof -
  have "make_exif (ex_world\<lparr>gps := syd_receiver\<rparr>) ts fix =
     Inr ((base_exif ts)\<lparr>ifd_GPS :=
        [(GPSLatitudeRef, Str (if 0 \<le> (- 271 / 8 :: rat) then ''N'' else ''S'')),
         (GPSLatitude, Rational3 ((33, 1), (52, 1), (30, 1))),
         (GPSLongitudeRef, Str (if 0 \<le> (605 / 4 :: rat) then ''E'' else ''W'')),
         (GPSLongitude, Rational3 ((151, 1), (15, 1), (0, 1)))]
        @ altitude_part (altitude_m (gps (ex_world\<lparr>gps := syd_receiver\<rparr>)))
        @ [(GPSDateStamp, Str (strftime_date (utc_now (ex_world\<lparr>gps := syd_receiver\<rparr>)))),
           (GPSTimeStamp, Rational3 ((23, 1), (59, 1), (58, 1)))]\<rparr>)"
    using make_exif_positioned_eq
      [of "ex_world\<lparr>gps := syd_receiver\<rparr>" "- 271 / 8" "605 / 4"
        "\<lparr>tm_year = 2024, tm_mon = 1, tm_mday = 1, tm_hour = 23, tm_min = 59, tm_sec = 58\<rparr>"
        "((33, 1), (52, 1), (30, 1))" "((151, 1), (15, 1), (0, 1))" ts "fix"]
      u_deg_to_dms_syd_lat u_deg_to_dms_syd_lon
    by (simp add: ex_world_def syd_receiver_def)
  moreover have "altitude_m (gps (ex_world\<lparr>gps := syd_receiver\<rparr>)) = None"
    by (simp add: syd_receiver_def)
  ultimately show ?thesis
    using strftime_date_ex by (simp add: altitude_part_def)
qed

lemma make_exif_no_timestamp:
  "make_exif (ex_world\<lparr>gps := ex_receiver\<lparr>timestamp_utc := None\<rparr>\<rparr>) ts fix = Inl AttributeError"
  using u_deg_to_dms_ex_lat u_deg_to_dms_ex_lon u_rat_ex_alt
  by (simp add: make_exif_def Let_def altitude_tags_def timestamp_tags_def ex_world_def
      ex_receiver_def)

text \<open>
  C3, as stated, fails. The receiver's own timestamp is 2024-01-01 23:59:58 and the
  system clock reads 2024-01-02 00:00:01 UTC: the date stamp written is 2024:01:02, the
  date of the system clock, next to the receiver's time of day. And when the receiver
  has a position but no timestamp, the positioning timestamp fields are not left out:
  the call raises AttributeError.
\<close>

theorem make_exif_date_stamp_counterexample:
  "make_exif ex_world ex_now (PyDict [(''fix_quality'', ''1'')]) =
     Inr ((base_exif ex_now)\<lparr>ifd_GPS :=
        [(GPSLatitudeRef, Str ''N''), (GPSLatitude, Rational3 ((51, 1), (30, 1), (0, 1))),
         (GPSLongitudeRef, Str ''W''), (GPSLongitude, Rational3 ((0, 1), (7, 1), (30, 1))),
         (GPSAltitudeRef, IntVal 0), (GPSAltitude, Rational (35, 1)),
         (GPSDateStamp, Str ''2024:01:02''),
         (GPSTimeStamp, Rational3 ((23, 1), (59, 1), (58, 1)))]\<rparr>)
   \<and> timestamp_utc (gps ex_world) =
       Some \<lparr>tm_year = 2024, tm_mon = 1, tm_mday = 1, tm_hour = 23, tm_min = 59, tm_sec = 58\<rparr>
   \<and> make_exif (ex_world\<lparr>gps := ex_receiver\<lparr>timestamp_utc := None\<rparr>\<rparr>) ex_now
         (PyDict [(''fix_quality'', ''1'')]) =
       Inl AttributeError"
  using make_exif_ex_world [of ex_now "PyDict [(''fix_quality'', ''1'')]"]
    make_exif_no_timestamp [of ex_now "PyDict [(''fix_quality'', ''1'')]"]
  by (simp add: ex_world_def ex_receiver_def)

text \<open>
  C3, amended. For every tag built while the GPS library is present and the receiver
  reports a latitude, a longitude and a timestamp, the call returns, GPSTimeStamp is the
  hour, minute and second of the receiver's own timestamp (each over 1), and GPSDateStamp
  is the date of the system clock in UTC, read while the tag is built; the capture
  timestamp passed to \<^verbatim>\<open>make_exif\<close> is written into no positioning field (the GPS group
  is the same for every capture timestamp).
\<close>

theorem make_exif_positioning_timestamps:
  assumes "EXIF_OK w" "GPS_AVAILABLE w"
    and "latitude (gps w) = Some lat" and "longitude (gps w) = Some lon"
    and "timestamp_utc (gps w) = Some t"
  shows "\<exists>e. make_exif w ts fix = Inr e \<and>
           map_of (ifd_GPS e) GPSTimeStamp =
             Some (Rational3 ((tm_hour t, 1), (tm_min t, 1), (tm_sec t, 1))) \<and>
           map_of (ifd_GPS e) GPSDateStamp = Some (Str (strftime_date (utc_now w))) \<and>
           (\<forall>ts'. \<exists>e'. make_exif w ts' fix = Inr e' \<and> ifd_GPS e' = ifd_GPS e)"
proof -
  obtain lat_dms where 1: "u_deg_to_dms lat = Inr lat_dms" using u_deg_to_dms_returns by blast
  obtain lon_dms where 2: "u_deg_to_dms lon = Inr lon_dms" using u_deg_to_dms_returns by blast
  note e = make_exif_positioned_eq [OF assms 1 2]
  show ?thesis
    by (simp add: e map_of_altitude_part map_add_def)
qed

theorem make_exif_positioning_timestamps_witness:
  "EXIF_OK ex_world \<and> GPS_AVAILABLE ex_world
   \<and> latitude (gps ex_world) = Some (103 / 2) \<and> longitude (gps ex_world) = Some (- 1 / 8)
   \<and> timestamp_utc (gps ex_world) =
       Some \<lparr>tm_year = 2024, tm_mon = 1, tm_mday = 1, tm_hour = 23, tm_min = 59, tm_sec = 58\<rparr>
   \<and> map_of (ifd_GPS ((base_exif ex_now)\<lparr>ifd_GPS :=
        [(GPSLatitudeRef, Str ''N''), (GPSLatitude, Rational3 ((51, 1), (30, 1), (0, 1))),
         (GPSLongitudeRef, Str ''W''), (GPSLongitude, Rational3 ((0, 1), (7, 1), (30, 1))),
         (GPSAltitudeRef, IntVal 0), (GPSAltitude, Rational (35, 1)),
         (GPSDateStamp, Str ''2024:01:02''),
         (GPSTimeStamp, Rational3 ((23, 1), (59, 1), (58, 1)))]\<rparr>)) GPSTimeStamp =
       Some (Rational3 ((23, 1), (59, 1), (58, 1)))
   \<and> strftime_date (utc_now ex_world) = ''2024:01:02''"
proof -
  have h: "EXIF_OK ex_world" "GPS_AVAILABLE ex_world"
    "latitude (gps ex_world) = Some (103 / 2)" "longitude (gps ex_world) = Some (- 1 / 8)"
    "timestamp_utc (gps ex_world) =
       Some \<lparr>tm_year = 2024, tm_mon = 1, tm_mday = 1, tm_hour = 23, tm_min = 59, tm_sec = 58\<rparr>"
    by (simp_all add: ex_world_def ex_receiver_def)
  from make_exif_positioning_timestamps [OF h, of ex_now PyNone]
  obtain e where e: "make_exif ex_world ex_now PyNone = Inr e"
    and t: "map_of (ifd_GPS e) GPSTimeStamp = Some (Rational3 ((23, 1), (59, 1), (58, 1)))"
    by auto
  from e have "e = (base_exif ex_now)\<lparr>ifd_GPS :=
        [(GPSLatitudeRef, Str ''N''), (GPSLatitude, Rational3 ((51, 1), (30, 1), (0, 1))),
         (GPSLongitudeRef, Str ''W''), (GPSLongitude, Rational3 ((0, 1), (7, 1), (30, 1))),
         (GPSAltitudeRef, IntVal 0), (GPSAltitude, Rational (35, 1)),
         (GPSDateStamp, Str ''2024:01:02''),
         (GPSTimeStamp, Rational3 ((23, 1), (59, 1), (58, 1)))]\<rparr>"
    by (simp add: make_exif_ex_world)
  with t h strftime_date_ex show ?thesis by simp
qed

lemma make_exif_without_piexif: "\<not> EXIF_OK w \<Longrightarrow> make_exif w ts fix = Inl NameError"
  by (simp add: make_exif_def)

text \<open>
  C4 (the code at a failing input). The claim is that a tag built with no fix has an empty
  GPS group. Here nothing was ever published, so the snapshot that the capture loop takes
  is \<^verbatim>\<open>None\<close>, and the loop passes it to \<^verbatim>\<open>make_exif\<close>; the receiver reports 51.5 N,
  0.125 W, 35 m. \<^verbatim>\<open>make_exif\<close> does not read the fix it is given, against the
  description of the loop as embedding "the latest GPS fix from SharedState": the tag it
  returns, which the loop saves with the photo, has the GPS group filled from the
  receiver. The 0th group is as claimed.
\<close>

theorem make_exif_absent_fix_fills_gps:
  "get_fix (cyc_state ex_cycle) = Inr PyNone
   \<and> make_exif ex_world ex_now PyNone = Inr ex_tag
   \<and> ifd_GPS ex_tag =
       [(GPSLatitudeRef, Str ''N''), (GPSLatitude, Rational3 ((51, 1), (30, 1), (0, 1))),
        (GPSLongitudeRef, Str ''W''), (GPSLongitude, Rational3 ((0, 1), (7, 1), (30, 1))),
        (GPSAltitudeRef, IntVal 0), (GPSAltitude, Rational (35, 1)),
        (GPSDateStamp, Str ''2024:01:02''),
        (GPSTimeStamp, Rational3 ((23, 1), (59, 1), (58, 1)))]
   \<and> ifd_0th ex_tag =
       [(DateTime, Str ''2024:01:02 01:00:00''), (Make, Str ''Raspberry Pi''),
        (Model, Str ''Camera Module 3''), (Software, Str ''OpenSenseCam Script'')]
   \<and> cycle_body \<lparr>interval = 10, pc2 = True\<rparr> ex_cycle =
       ([Print ''Taking a photo..'', CaptureFile,
         Save ''/var/lib/opensensecam'' ''photo_20240102_010000.jpg'' ex_tag,
         PrintSaved ''/var/lib/opensensecam'' ''photo_20240102_010000.jpg'' ex_tag
           (Some ex_receiver)], None)"
proof -
  have c: "cyc_world ex_cycle = ex_world" "now_local ex_cycle = ex_now"
    "cyc_state ex_cycle = SharedState_init" "capture ex_cycle = Inr ''JPEG''"
    by (simp_all add: ex_cycle_def)
  have w: "PICAMERA2 ex_world" "IMAGE_DIR ex_world = ''/var/lib/opensensecam''"
    "printed_gps ex_world = Some ex_receiver"
    by (simp_all add: ex_world_def printed_gps_def)
  have f: "strftime_photo ex_now = ''photo_20240102_010000.jpg''"
    by (simp add: strftime_photo_def ex_now_def pad2_def pad4_def digit_def)
  have s: "strftime_exif ex_now = ''2024:01:02 01:00:00''"
    by (simp add: strftime_exif_def ex_now_def pad2_def pad4_def digit_def)
  have g: "get_fix SharedState_init = Inr PyNone"
    by (simp add: get_fix_def SharedState_init_def)
  have m: "make_exif ex_world ex_now PyNone = Inr ex_tag"
    unfolding ex_tag_def by (rule make_exif_ex_world)
  have t: "ifd_0th ex_tag =
       [(DateTime, Str ''2024:01:02 01:00:00''), (Make, Str ''Raspberry Pi''),
        (Model, Str ''Camera Module 3''), (Software, Str ''OpenSenseCam Script'')]"
    by (simp add: ex_tag_def ifd_0th_base_exif s)
  have b: "cycle_body \<lparr>interval = 10, pc2 = True\<rparr> ex_cycle =
       ([Print ''Taking a photo..'', CaptureFile,
         Save ''/var/lib/opensensecam'' ''photo_20240102_010000.jpg'' ex_tag,
         PrintSaved ''/var/lib/opensensecam'' ''photo_20240102_010000.jpg'' ex_tag
           (Some ex_receiver)], None)"
    by (simp add: cycle_body_def Let_def c w f g m)
  have i: "ifd_GPS ex_tag =
       [(GPSLatitudeRef, Str ''N''), (GPSLatitude, Rational3 ((51, 1), (30, 1), (0, 1))),
        (GPSLongitudeRef, Str ''W''), (GPSLongitude, Rational3 ((0, 1), (7, 1), (30, 1))),
        (GPSAltitudeRef, IntVal 0), (GPSAltitude, Rational (35, 1)),
        (GPSDateStamp, Str ''2024:01:02''),
        (GPSTimeStamp, Rational3 ((23, 1), (59, 1), (58, 1)))]"
    by (simp add: ex_tag_def)
  from g m i t b show ?thesis unfolding c(3) by blast
qed

lemma cycle_body_state: "cycle_body cam (c\<lparr>cyc_state := s\<rparr>) = cycle_body cam c"
proof -
  obtain v where v: "get_fix (cyc_state c) = Inr v" using get_fix_returns by blast
  obtain v' where v': "get_fix s = Inr v'" using get_fix_returns by blast
  have eq: "make_exif w ts v' = make_exif w ts v" for w ts by (simp add: make_exif_def)
  show ?thesis
    by (cases "capture c") (simp_all add: cycle_body_def Let_def v v' eq split: sum.split)
qed

text \<open>
  C10. The result of \<^verbatim>\<open>make_exif\<close> is the same for every value of \<open>fix\<close>, and the events
  of a pass of the capture loop are the same whatever the shared state holds. With the
  GPS library present and a receiver that reports a position and a timestamp, the
  latitude and longitude tags are computed from the receiver's attributes. Two calls with
  the same timestamp and the same fix, made while the receiver reports two different
  positions, return different GPS groups.
\<close>

theorem make_exif_reads_live_receiver:
  "make_exif w ts fix = make_exif w ts fix'
   \<and> cycle_body cam (c\<lparr>cyc_state := s\<rparr>) = cycle_body cam c
   \<and> (EXIF_OK w \<and> GPS_AVAILABLE w \<and> latitude (gps w) = Some lat \<and>
        longitude (gps w) = Some lon \<and> timestamp_utc (gps w) = Some t \<longrightarrow>
        (\<exists>lat_dms lon_dms e.
           u_deg_to_dms lat = Inr lat_dms \<and> u_deg_to_dms lon = Inr lon_dms \<and>
           make_exif w ts fix = Inr e \<and>
           map_of (ifd_GPS e) GPSLatitudeRef = Some (Str (if 0 \<le> lat then ''N'' else ''S'')) \<and>
           map_of (ifd_GPS e) GPSLatitude = Some (Rational3 lat_dms) \<and>
           map_of (ifd_GPS e) GPSLongitudeRef = Some (Str (if 0 \<le> lon then ''E'' else ''W'')) \<and>
           map_of (ifd_GPS e) GPSLongitude = Some (Rational3 lon_dms)))
   \<and> (\<exists>e e'. make_exif ex_world ex_now PyNone = Inr e \<and>
         make_exif (ex_world\<lparr>gps := syd_receiver\<rparr>) ex_now PyNone = Inr e' \<and>
         ifd_GPS e \<noteq> ifd_GPS e')"
proof -
  have 1: "make_exif w ts fix = make_exif w ts fix'" by (simp add: make_exif_def)
  have 3: "\<exists>lat_dms lon_dms e.
           u_deg_to_dms lat = Inr lat_dms \<and> u_deg_to_dms lon = Inr lon_dms \<and>
           make_exif w ts fix = Inr e \<and>
           map_of (ifd_GPS e) GPSLatitudeRef = Some (Str (if 0 \<le> lat then ''N'' else ''S'')) \<and>
           map_of (ifd_GPS e) GPSLatitude = Some (Rational3 lat_dms) \<and>
           map_of (ifd_GPS e) GPSLongitudeRef = Some (Str (if 0 \<le> lon then ''E'' else ''W'')) \<and>
           map_of (ifd_GPS e) GPSLongitude = Some (Rational3 lon_dms)"
    if h: "EXIF_OK w" "GPS_AVAILABLE w" "latitude (gps w) = Some lat"
      "longitude (gps w) = Some lon" "timestamp_utc (gps w) = Some t"
  proof -
    obtain lat_dms where a: "u_deg_to_dms lat = Inr lat_dms" using u_deg_to_dms_returns by blast
    obtain lon_dms where b: "u_deg_to_dms lon = Inr lon_dms" using u_deg_to_dms_returns by blast
    note e = make_exif_positioned_eq [OF h a b]
    show ?thesis
      by (rule exI [of _ lat_dms], rule exI [of _ lon_dms]) (simp add: a b e)
  qed
  have 4: "\<exists>e e'. make_exif ex_world ex_now PyNone = Inr e \<and>
         make_exif (ex_world\<lparr>gps := syd_receiver\<rparr>) ex_now PyNone = Inr e' \<and>
         ifd_GPS e \<noteq> ifd_GPS e'"
    by (simp add: make_exif_ex_world make_exif_syd_world)
  show ?thesis using 1 cycle_body_state 3 4 by blast
qed

theorem make_exif_reads_live_receiver_witness:
  "EXIF_OK ex_world \<and> GPS_AVAILABLE ex_world
   \<and> latitude (gps ex_world) = Some (103 / 2) \<and> longitude (gps ex_world) = Some (- 1 / 8)
   \<and> timestamp_utc (gps ex_world) =
       Some \<lparr>tm_year = 2024, tm_mon = 1, tm_mday = 1, tm_hour = 23, tm_min = 59, tm_sec = 58\<rparr>
   \<and> u_deg_to_dms (103 / 2) = Inr ((51, 1), (30, 1), (0, 1))
   \<and> map_of (ifd_GPS (projr (make_exif ex_world ex_now PyNone))) GPSLatitude =
       Some (Rational3 ((51, 1), (30, 1), (0, 1)))"
proof -
  have h: "EXIF_OK ex_world \<and> GPS_AVAILABLE ex_world
     \<and> latitude (gps ex_world) = Some (103 / 2) \<and> longitude (gps ex_world) = Some (- 1 / 8)
     \<and> timestamp_utc (gps ex_world) =
       Some \<lparr>tm_year = 2024, tm_mon = 1, tm_mday = 1, tm_hour = 23, tm_min = 59, tm_sec = 58\<rparr>"
    by (simp add: ex_world_def ex_receiver_def)
  from make_exif_reads_live_receiver
    [of ex_world ex_now PyNone PyNone _ _ _ "103 / 2" "- 1 / 8"
      "\<lparr>tm_year = 2024, tm_mon = 1, tm_mday = 1, tm_hour = 23, tm_min = 59, tm_sec = 58\<rparr>"] h
  obtain lat_dms e where "u_deg_to_dms (103 / 2) = Inr lat_dms"
    and "make_exif ex_world ex_now PyNone = Inr e"
    and "map_of (ifd_GPS e) GPSLatitude = Some (Rational3 lat_dms)"
    by blast
  with h u_deg_to_dms_ex_lat show ?thesis by simp
qed

end
